theory Spec2Isabelle
  imports Main
begin

section \<open>C strings and \<open>strcmp\<close>\<close>

text \<open>
  A C string is a run of bytes closed by a NUL byte. A pointer into a character buffer is
  modelled by the bytes from the address it points at up to the end of the buffer, so
  that \<open>p + n\<close> is \<open>drop n\<close> and a read through a pointer that has left the buffer
  finds no byte at all.
\<close>

definition NUL :: char where
  "NUL = CHR 0x00"

definition c_str :: "string \<Rightarrow> char list" where
  "c_str s = s @ [NUL]"

text \<open>
  \<open>strcmp\<close> of the C library: it walks both strings byte by byte and stops at the first
  difference or at the terminator. \<open>None\<close> is a read outside one of the buffers
  (undefined behaviour in C).
\<close>

fun strcmp :: "char list \<Rightarrow> char list \<Rightarrow> int option" where
  "strcmp (a # xs) (b # ys) =
     (if a \<noteq> b then Some (int (of_char a) - int (of_char b))
      else if a = NUL then Some 0
      else strcmp xs ys)"
| "strcmp _ _ = None"

section \<open>Requests, responses and the route table\<close>

text \<open>
  Modelled from the spec: the enumeration \<open>V8RequestMethod\<close> is declared in the header
  \<open>v8/v8.h\<close>, which is not among the sources. The router only tells the sentinel value
  \<open>V8_METHOD_UNKNOWN\<close> from the other methods and compares methods for equality.
\<close>

datatype V8RequestMethod =
    V8_METHOD_UNKNOWN
  | V8_METHOD_GET
  | V8_METHOD_POST
  | V8_METHOD_OTHER nat

text \<open>
  Modelled from the spec: the response status codes of \<open>v8/v8.h\<close>; a fresh response
  carries the default success status.
\<close>

datatype V8ResponseStatus =
    V8_STATUS_OK
  | V8_STATUS_NOT_FOUND
  | V8_STATUS_OTHER nat

text \<open>
  Modelled from the spec: a parsed request offers its method, its path and a lookup of
  named parameters (\<open>v8_request_method\<close>, \<open>v8_request_route\<close>, \<open>v8_request_param\<close> of
  the protocol collaborator).
\<close>

record V8Request =
  req_method :: V8RequestMethod
  req_route :: string
  req_params :: "(string \<times> string) list"

definition v8_request_method :: "V8Request \<Rightarrow> V8RequestMethod" where
  "v8_request_method request = req_method request"

definition v8_request_route :: "V8Request \<Rightarrow> string" where
  "v8_request_route request = req_route request"

text \<open>
  Modelled from the spec: a response is bound to a socket and accumulates a status and a
  body; \<open>v8_response_create\<close> yields the default success status and an empty body.
\<close>

record V8Response =
  resp_sock :: int
  resp_status :: V8ResponseStatus
  resp_body :: string

definition v8_response_create :: "V8Request \<Rightarrow> int \<Rightarrow> V8Response" where
  "v8_response_create request sock =
     \<lparr>resp_sock = sock, resp_status = V8_STATUS_OK, resp_body = []\<rparr>"

definition v8_response_set_status :: "V8Response \<Rightarrow> V8ResponseStatus \<Rightarrow> V8Response" where
  "v8_response_set_status response st = response\<lparr>resp_status := st\<rparr>"

text \<open>
  One entry of the route table (\<open>V8Action\<close>). Function pointers are addresses of
  application code: a handler and a filter are named by a number, and the application
  record below says what the code at that address does. \<open>route\<close> and \<open>filter'\<close> may be
  \<open>NULL\<close> (\<open>None\<close>); \<open>handler\<close> is called without a test by the router.
\<close>

record V8Action =
  method' :: V8RequestMethod
  route :: "string option"
  handler :: nat
  filter' :: "nat option"

text \<open>
  What lies outside the server: the application code behind the function pointers and the
  results of the two calls of the worker that can fail.
\<close>

record world =
  sigprocmask_ret :: int
  scgi_request :: "V8Request option"
  initializers :: "nat \<Rightarrow> nat option"
  filters :: "nat \<Rightarrow> V8Request \<Rightarrow> nat option"
  handlers :: "nat \<Rightarrow> V8Request \<Rightarrow> V8Response \<Rightarrow> V8Response"

text \<open>The server structure \<open>struct v8_t\<close>; \<open>dispatcher\<close> and \<open>app_data\<close> may be \<open>NULL\<close>.\<close>

record v8_t =
  sockfd :: int
  sigfd :: int
  base_size :: nat
  config :: "(string \<times> string) list"
  dispatcher :: "nat option"
  actions :: "V8Action list"
  app_data :: "nat option"
  app_init :: "nat option"

section \<open>Observable events\<close>

datatype log_level = Debug | Info | Warn | Error

datatype event =
    Log log_level string "int list"
  | Close int
  | Dispatcher_destroy "nat option"
  | Dispatcher_stop "nat option"
  | Sigprocmask_unblock int
  | Request_create
  | Response_create int
  | Scgi_request_read int
  | App_init nat
  | Call_filter nat
  | Call_handler nat
  | Response_set_status V8ResponseStatus
  | Response_send V8Response
  | Response_destroy
  | Request_destroy
  | Accept int int
  | Fork int
  | Read_sigfd int
  | Waitpid int

text \<open>
  The arguments of the events are the descriptor or object the call works on and, for
  \<open>Accept\<close>, \<open>Fork\<close>, \<open>Waitpid\<close> and \<open>Sigprocmask_unblock\<close>, the value the call
  returned. A log entry keeps its level, its format string and its integer arguments.
\<close>

text \<open>
  A fault is a read outside an object (undefined behaviour in C): an entry beyond the end
  of the route table, or a byte beyond the end of a string buffer. A call ends by
  returning a value, by leaving the process through \<open>exit\<close>, or by a fault.
\<close>

datatype fault = Table_overrun | String_overrun

datatype outcome = Returns int | Exits int | Faults fault

section \<open>The router: \<open>v8_request_handler\<close>\<close>

text \<open>
  The test of one table entry (the condition of the \<open>if\<close> inside the loop). \<open>&&\<close>
  evaluates from the left, so \<open>strcmp\<close> reads the strings only when the methods are equal
  and the stored path is not \<open>NULL\<close>.
\<close>

definition action_matches :: "nat \<Rightarrow> V8Request \<Rightarrow> V8Action \<Rightarrow> fault + bool" where
  "action_matches bs request a =
     (if v8_request_method request = method' a then
        (case route a of
           None \<Rightarrow> Inr False
         | Some r \<Rightarrow>
             (case strcmp (drop bs (c_str (v8_request_route request))) (c_str r) of
                None \<Rightarrow> Inl String_overrun
              | Some c \<Rightarrow> Inr (c = 0)))
      else Inr False)"

text \<open>
  A call of a handler. The response structure is opaque to application code: a handler
  changes what the response holds through the functions of the library, and cannot
  change the socket the response is bound to.
\<close>

definition call_handler :: "world \<Rightarrow> nat \<Rightarrow> V8Request \<Rightarrow> V8Response \<Rightarrow> V8Response" where
  "call_handler w h request response =
     (handlers w h request response)\<lparr>resp_sock := resp_sock response\<rparr>"

text \<open>The body of that \<open>if\<close>: the filter, when there is one, may substitute the handler.\<close>

definition run_action ::
  "world \<Rightarrow> V8Action \<Rightarrow> V8Request \<Rightarrow> V8Response \<Rightarrow> event list \<times> V8Response" where
  "run_action w a request response =
     (case filter' a of
        Some f \<Rightarrow>
          (case filters w f request of
             Some h \<Rightarrow> ([Call_filter f, Call_handler h], call_handler w h request response)
           | None \<Rightarrow>
               ([Call_filter f, Call_handler (handler a)],
                call_handler w (handler a) request response))
      | None \<Rightarrow> ([Call_handler (handler a)], call_handler w (handler a) request response))"

text \<open>
  The \<open>for\<close> loop over the table, from index \<open>i\<close>. It returns the events of the calls
  it made, the response and the value of \<open>i\<close> when the loop is left. Reading an entry
  beyond the end of the array is a fault.
\<close>

function route_loop ::
  "world \<Rightarrow> V8Action list \<Rightarrow> nat \<Rightarrow> V8Request \<Rightarrow> V8Response \<Rightarrow> nat
     \<Rightarrow> fault + (event list \<times> V8Response \<times> nat)" where
  "route_loop w acts bs request response i =
     (if length acts \<le> i then Inl Table_overrun
      else if method' (acts ! i) = V8_METHOD_UNKNOWN then Inr ([], response, i)
      else
        (case action_matches bs request (acts ! i) of
           Inl f \<Rightarrow> Inl f
         | Inr True \<Rightarrow>
             (case run_action w (acts ! i) request response of
                (evs, response') \<Rightarrow> Inr (evs, response', i))
         | Inr False \<Rightarrow> route_loop w acts bs request response (Suc i)))"
  by pat_completeness auto
termination
  by (relation "measure (\<lambda>(w, acts, bs, request, response, i). length acts - i)") auto

declare route_loop.simps [simp del]

text \<open>
  \<open>v8_request_handler\<close>: read one request, route it, send the response. The result is the
  server structure (the initializer may have set \<open>app_data\<close>), the events in order and
  the value returned (or the fault that ended the run).
\<close>

definition v8_request_handler ::
  "world \<Rightarrow> v8_t \<Rightarrow> int \<Rightarrow> v8_t \<times> event list \<times> outcome" where
  "v8_request_handler w v8 sock =
     (case scgi_request w of
        None \<Rightarrow>
          (v8,
           [Request_create, Response_create sock, Scgi_request_read sock,
            Log Warn ''Could not read request'' [], Close sock],
           Returns (- 1))
      | Some request \<Rightarrow>
          (let response = v8_response_create request sock;
               (v8', init_evs) =
                 (case app_init v8 of
                    None \<Rightarrow> (v8, [])
                  | Some f \<Rightarrow> (v8\<lparr>app_data := initializers w f\<rparr>, [App_init f]));
               start_evs =
                 [Request_create, Response_create sock, Scgi_request_read sock] @ init_evs
                 @ [Log Debug ''Request receiveid -> Method: %d Path: %s'' []]
           in case route_loop w (actions v8') (base_size v8') request response 0 of
                Inl f \<Rightarrow> (v8', start_evs, Faults f)
              | Inr (evs, response', i) \<Rightarrow>
                  (let (nf_evs, response'') =
                         (if method' (actions v8' ! i) = V8_METHOD_UNKNOWN
                          then ([Log Warn ''Action not found %s'' [],
                                 Response_set_status V8_STATUS_NOT_FOUND],
                                v8_response_set_status response' V8_STATUS_NOT_FOUND)
                          else ([], response'))
                   in (v8',
                       start_evs @ evs @ nf_evs
                       @ [Response_send response'', Response_destroy, Request_destroy,
                          Close sock],
                       Returns 0))))"

section \<open>The worker process: \<open>v8_child_exec\<close> and \<open>v8_fork\<close>\<close>

text \<open>
  \<open>v8_child_exec\<close> never returns: the process ends with \<open>exit\<close>. The parent sees the low
  eight bits of the argument of \<open>exit\<close> as the exit status.
\<close>

definition exit_status :: "int \<Rightarrow> int" where
  "exit_status code = code mod 256"

definition v8_child_exec :: "world \<Rightarrow> v8_t \<Rightarrow> int \<Rightarrow> v8_t \<times> event list \<times> outcome" where
  "v8_child_exec w v8 sock =
     (let teardown =
            [Close (sigfd v8), Close (sockfd v8), Dispatcher_destroy (dispatcher v8),
             Sigprocmask_unblock (sigprocmask_ret w)];
          v8' = v8\<lparr>sigfd := - 1, sockfd := - 1, dispatcher := None\<rparr>
      in if sigprocmask_ret w = - 1
         then (v8', teardown @ [Log Error ''Unable to unblock signals: %d'' []], Exits (- 1))
         else
           (case v8_request_handler w v8' sock of
              (v8'', evs, Returns ret) \<Rightarrow> (v8'', teardown @ evs, Exits ret)
            | (v8'', evs, out) \<Rightarrow> (v8'', teardown @ evs, out)))"

text \<open>
  \<open>v8_fork\<close>, in the process where \<open>fork\<close> returned \<open>pid\<close>: the child (\<open>pid = 0\<close>)
  runs \<open>v8_child_exec\<close> and ends there; the parent closes its copy of the socket.
\<close>

definition v8_fork :: "world \<Rightarrow> int \<Rightarrow> v8_t \<Rightarrow> int \<Rightarrow> event list \<times> outcome" where
  "v8_fork w pid v8 sock =
     (if pid < 0
      then ([Fork pid, Log Error ''Failed to create worker process %d'' [], Close sock],
            Returns (- 1))
      else if pid = 0
      then (case v8_child_exec w v8 sock of (v8', evs, out) \<Rightarrow> (Fork pid # evs, out))
      else ([Fork pid, Close sock], Returns 0))"

section \<open>The connection acceptor: \<open>v8_handle_connection\<close>\<close>

definition EAGAIN :: int where
  "EAGAIN = 11"

text \<open>
  What successive calls of \<open>accept\<close> on the listening socket return: a new descriptor
  (never negative), or \<open>-1\<close> with an error number. When nothing is pending the call
  returns \<open>-1\<close> with \<open>EAGAIN\<close>, the socket being non-blocking. \<open>forks k\<close> is what the
  \<open>k\<close>-th call of \<open>fork\<close> returns in the process that is followed.
\<close>

datatype accept_result = Accepted nat | Accept_failed int

fun v8_handle_connection ::
  "world \<Rightarrow> (nat \<Rightarrow> int) \<Rightarrow> v8_t \<Rightarrow> nat \<Rightarrow> accept_result list
     \<Rightarrow> event list \<times> outcome \<times> accept_result list" where
  "v8_handle_connection w forks v8 k [] = ([Accept (sockfd v8) (- 1)], Returns 0, [])"
| "v8_handle_connection w forks v8 k (Accept_failed e # pending) =
     (Accept (sockfd v8) (- 1)
        # (if e \<noteq> EAGAIN then [Log Error ''Fail to accept connection'' []] else []),
      Returns 0, pending)"
| "v8_handle_connection w forks v8 k (Accepted n # pending) =
     (case v8_fork w (forks k) v8 (int n) of
        (fork_evs, Returns ret) \<Rightarrow>
          (case v8_handle_connection w forks v8 (Suc k) pending of
             (evs, res) \<Rightarrow>
               (Accept (sockfd v8) (int n) # Log Debug ''Connection accepted'' [] # fork_evs
                  @ (if ret \<noteq> 0 then [Log Error ''Fail to fork process'' []] else [])
                  @ evs,
                res))
      | (fork_evs, out) \<Rightarrow>
          (Accept (sockfd v8) (int n) # Log Debug ''Connection accepted'' [] # fork_evs,
           out, pending))"

section \<open>The signal handler: \<open>v8_handle_signal\<close>\<close>

definition SIGHUP :: nat where
  "SIGHUP = 1"

definition SIGINT :: nat where
  "SIGINT = 2"

definition SIGQUIT :: nat where
  "SIGQUIT = 3"

definition SIGTERM :: nat where
  "SIGTERM = 15"

definition SIGCHLD :: nat where
  "SIGCHLD = 17"

text \<open>
  The children of the server as \<open>waitpid\<close> sees them: those that have ended and were not
  waited for yet (process id and status), and those still running. With \<open>WNOHANG\<close> the
  call returns the id of an ended child and forgets it, \<open>0\<close> when children exist but
  none has ended, and \<open>-1\<close> when there is no child at all.
\<close>

datatype wait_status = W_exited int | W_signaled int | W_stopped int | W_continued

record proc_table =
  zombies :: "(int \<times> wait_status) list"
  running :: "int list"

definition waitpid_nohang :: "proc_table \<Rightarrow> int \<times> wait_status option \<times> proc_table" where
  "waitpid_nohang pt =
     (case zombies pt of
        (p, s) # zs \<Rightarrow> (p, Some s, pt\<lparr>zombies := zs\<rparr>)
      | [] \<Rightarrow> (if running pt = [] then (- 1, None, pt) else (0, None, pt)))"

text \<open>
  The loop \<open>while ((pid = waitpid(-1, &status, WNOHANG) > 0));\<close>. The comparison binds
  tighter than the assignment: \<open>pid\<close> receives the truth value of
  \<open>waitpid(...) > 0\<close>, and the loop goes on while that value is not zero. \<open>status\<close> is
  written by \<open>waitpid\<close> only when a child is reported.
\<close>

function reap_children ::
  "proc_table \<Rightarrow> wait_status option
     \<Rightarrow> event list \<times> int \<times> wait_status option \<times> proc_table" where
  "reap_children pt status =
     (case waitpid_nohang pt of
        (r, st, pt') \<Rightarrow>
          (let status' = (case st of None \<Rightarrow> status | Some s \<Rightarrow> Some s);
               pid = (if 0 < r then 1 else 0)
           in if pid \<noteq> 0
              then (case reap_children pt' status' of (evs, res) \<Rightarrow> (Waitpid r # evs, res))
              else ([Waitpid r], pid, status', pt')))"
  by pat_completeness auto
termination
  by (relation "measure (\<lambda>(pt, status). length (zombies pt))")
    (auto simp: waitpid_nohang_def split: list.splits if_splits)

declare reap_children.simps [simp del]

text \<open>The \<open>SIGCHLD\<close> case of the switch.\<close>

definition handle_sigchld :: "proc_table \<Rightarrow> event list \<times> proc_table" where
  "handle_sigchld pt =
     (case reap_children pt None of
        (evs, pid, status, pt') \<Rightarrow>
          (Log Debug ''Child signaled'' [] # evs
             @ (if pid < 0 then [Log Error ''Failed when waiting for childs: %d'' []]
                else if pid = 0 then [Log Debug ''Child has not changed state'' []]
                else
                  (case status of
                     Some (W_exited c) \<Rightarrow> [Log Debug ''Child %i exited with code: %i'' [pid, c]]
                   | Some (W_signaled n) \<Rightarrow>
                       [Log Error ''Child %i was terminated by signal: %i'' [pid, n]]
                   | Some (W_stopped n) \<Rightarrow>
                       [Log Error ''Child %i was stopped by signal: %i'' [pid, n]]
                   | Some W_continued \<Rightarrow> [Log Error ''Child %i continued it's execution'' [pid]]
                   | None \<Rightarrow> [])),
           pt'))"

text \<open>
  What successive reads of the signal descriptor return: a whole record with its signal
  number, or a failure with its error number; the empty queue is a read that fails with
  \<open>EAGAIN\<close>.
\<close>

datatype sig_read = Siginfo nat | Read_fails int

fun v8_handle_signal ::
  "v8_t \<Rightarrow> sig_read list \<Rightarrow> proc_table \<Rightarrow> event list \<times> proc_table" where
  "v8_handle_signal v8 [] pt = ([Read_sigfd (sigfd v8)], pt)"
| "v8_handle_signal v8 (Read_fails e # queue) pt =
     (Read_sigfd (sigfd v8)
        # (if e \<noteq> EAGAIN then [Log Error ''Unable to get signal info: %d'' [e]] else []),
      pt)"
| "v8_handle_signal v8 (Siginfo signo # queue) pt =
     (case (if signo = SIGINT \<or> signo = SIGQUIT \<or> signo = SIGTERM
            then ([Log Info ''Termination signal received'' [],
                   Dispatcher_stop (dispatcher v8)], pt)
            else if signo = SIGCHLD then handle_sigchld pt
            else if signo = SIGHUP
            then ([Log Info ''Config file reload not inplemented'' []], pt)
            else ([Log Error ''Unexpected signal arrived: %d'' [int signo]], pt)) of
        (evs, pt') \<Rightarrow>
          (case v8_handle_signal v8 queue pt' of
             (evs', pt'') \<Rightarrow> (Read_sigfd (sigfd v8) # evs @ evs', pt'')))"

section \<open>Notions used to state the properties\<close>

subsection \<open>The route table\<close>

text \<open>
  The entries of a table are those before the first sentinel. An entry answers a method
  and a path when it stores that method and exactly that path. \<open>route_index\<close> is the
  position of the first entry that answers, and the position of the sentinel when none
  does.
\<close>

definition table_entries :: "V8Action list \<Rightarrow> V8Action list" where
  "table_entries acts = takeWhile (\<lambda>a. method' a \<noteq> V8_METHOD_UNKNOWN) acts"

definition entry_selects :: "V8RequestMethod \<Rightarrow> string \<Rightarrow> V8Action \<Rightarrow> bool" where
  "entry_selects m p a = (method' a = m \<and> route a = Some p)"

fun first_index :: "('a \<Rightarrow> bool) \<Rightarrow> 'a list \<Rightarrow> nat option" where
  "first_index P [] = None"
| "first_index P (x # xs) = (if P x then Some 0 else map_option Suc (first_index P xs))"

definition route_index :: "V8Action list \<Rightarrow> nat \<Rightarrow> V8RequestMethod \<Rightarrow> string \<Rightarrow> nat" where
  "route_index acts bs m p =
     (case first_index (entry_selects m (drop bs p)) (table_entries acts) of
        None \<Rightarrow> length (table_entries acts)
      | Some k \<Rightarrow> k)"

text \<open>The stored paths of a table are C strings: none holds a NUL byte.\<close>

definition c_routes :: "V8Action list \<Rightarrow> bool" where
  "c_routes acts =
     list_all (\<lambda>a. case route a of None \<Rightarrow> True | Some r \<Rightarrow> NUL \<notin> set r) acts"

subsection \<open>Reading a trace\<close>

fun handler_calls :: "event list \<Rightarrow> nat list" where
  "handler_calls [] = []"
| "handler_calls (Call_handler h # evs) = h # handler_calls evs"
| "handler_calls (e # evs) = handler_calls evs"

fun filter_calls :: "event list \<Rightarrow> nat list" where
  "filter_calls [] = []"
| "filter_calls (Call_filter f # evs) = f # filter_calls evs"
| "filter_calls (e # evs) = filter_calls evs"

fun sent_responses :: "event list \<Rightarrow> V8Response list" where
  "sent_responses [] = []"
| "sent_responses (Response_send r # evs) = r # sent_responses evs"
| "sent_responses (e # evs) = sent_responses evs"

fun accepted_socks :: "event list \<Rightarrow> int list" where
  "accepted_socks [] = []"
| "accepted_socks (Accept fd r # evs) =
     (if r \<noteq> - 1 then r # accepted_socks evs else accepted_socks evs)"
| "accepted_socks (e # evs) = accepted_socks evs"

fun accept_returns :: "event list \<Rightarrow> int list" where
  "accept_returns [] = []"
| "accept_returns (Accept fd r # evs) = r # accept_returns evs"
| "accept_returns (e # evs) = accept_returns evs"

fun fork_results :: "event list \<Rightarrow> int list" where
  "fork_results [] = []"
| "fork_results (Fork pid # evs) = pid # fork_results evs"
| "fork_results (e # evs) = fork_results evs"

fun closed_fds :: "event list \<Rightarrow> int list" where
  "closed_fds [] = []"
| "closed_fds (Close fd # evs) = fd # closed_fds evs"
| "closed_fds (e # evs) = closed_fds evs"

fun reaped_pids :: "event list \<Rightarrow> int list" where
  "reaped_pids [] = []"
| "reaped_pids (Waitpid r # evs) = (if 0 < r then r # reaped_pids evs else reaped_pids evs)"
| "reaped_pids (e # evs) = reaped_pids evs"

fun logs :: "event list \<Rightarrow> (log_level \<times> string \<times> int list) list" where
  "logs [] = []"
| "logs (Log l fmt args # evs) = (l, fmt, args) # logs evs"
| "logs (e # evs) = logs evs"

text \<open>The descriptors an event works on, and whether it works on the dispatcher.\<close>

fun event_fds :: "event \<Rightarrow> int list" where
  "event_fds (Close fd) = [fd]"
| "event_fds (Response_create fd) = [fd]"
| "event_fds (Scgi_request_read fd) = [fd]"
| "event_fds (Response_send r) = [resp_sock r]"
| "event_fds (Accept fd r) = [fd, r]"
| "event_fds (Read_sigfd fd) = [fd]"
| "event_fds e = []"

fun uses_dispatcher :: "event \<Rightarrow> bool" where
  "uses_dispatcher (Dispatcher_destroy d) = True"
| "uses_dispatcher (Dispatcher_stop d) = True"
| "uses_dispatcher e = False"

definition parent_resource :: "v8_t \<Rightarrow> event \<Rightarrow> bool" where
  "parent_resource v8 e =
     (sigfd v8 \<in> set (event_fds e) \<or> sockfd v8 \<in> set (event_fds e) \<or> uses_dispatcher e)"

text \<open>The events before the protocol read of the request, and those from it on.\<close>

definition before_read :: "int \<Rightarrow> event list \<Rightarrow> event list" where
  "before_read sock tr = takeWhile (\<lambda>e. e \<noteq> Scgi_request_read sock) tr"

definition from_read :: "int \<Rightarrow> event list \<Rightarrow> event list" where
  "from_read sock tr = dropWhile (\<lambda>e. e \<noteq> Scgi_request_read sock) tr"

text \<open>The pending connections that \<open>accept\<close> hands over before its first failure.\<close>

fun handed_over :: "accept_result list \<Rightarrow> nat list" where
  "handed_over (Accepted n # pending) = n # handed_over pending"
| "handed_over pending = []"

text \<open>
  The error number of the failure of \<open>accept\<close> that ends the loop (\<open>EAGAIN\<close> when
  every pending connection was handed over), and the log entries of the acceptor: those
  of one accept/fork cycle in which \<open>fork\<close> returned \<open>pid\<close>, and the one of a failure of
  \<open>accept\<close>.
\<close>

fun accept_failure :: "accept_result list \<Rightarrow> int" where
  "accept_failure [] = EAGAIN"
| "accept_failure (Accept_failed e # pending) = e"
| "accept_failure (Accepted n # pending) = accept_failure pending"

definition cycle_logs :: "int \<Rightarrow> (log_level \<times> string \<times> int list) list" where
  "cycle_logs pid =
     (Debug, ''Connection accepted'', [])
       # (if pid < 0
          then [(Error, ''Failed to create worker process %d'', []),
                (Error, ''Fail to fork process'', [])]
          else [])"

definition failure_logs :: "int \<Rightarrow> (log_level \<times> string \<times> int list) list" where
  "failure_logs e = (if e \<noteq> EAGAIN then [(Error, ''Fail to accept connection'', [])] else [])"

text \<open>The value of \<open>i\<close> on leaving the loop, when the loop is left without a fault.\<close>

definition loop_index :: "fault + (event list \<times> V8Response \<times> nat) \<Rightarrow> nat option" where
  "loop_index res = (case res of Inl f \<Rightarrow> None | Inr (evs, response, i) \<Rightarrow> Some i)"

text \<open>The events of the loop and the response it leaves, when it is left without a fault.\<close>

definition loop_events :: "fault + (event list \<times> V8Response \<times> nat) \<Rightarrow> event list" where
  "loop_events res = (case res of Inl f \<Rightarrow> [] | Inr (evs, response, i) \<Rightarrow> evs)"

definition loop_response ::
  "fault + (event list \<times> V8Response \<times> nat) \<Rightarrow> V8Response option" where
  "loop_response res = (case res of Inl f \<Rightarrow> None | Inr (evs, response, i) \<Rightarrow> Some response)"

text \<open>
  The handler that runs for an entry and a request: the stored handler when the entry has
  no filter or its filter returns \<open>NULL\<close> for the request, and the handler the filter
  returns otherwise.
\<close>

definition chosen_handler :: "world \<Rightarrow> V8Request \<Rightarrow> V8Action \<Rightarrow> nat" where
  "chosen_handler w request a =
     (case filter' a of
        None \<Rightarrow> handler a
      | Some f \<Rightarrow> (case filters w f request of None \<Rightarrow> handler a | Some h \<Rightarrow> h))"

subsection \<open>Parts of the trace of a worker\<close>

text \<open>
  The events of the request handler before the loop: creation of the request and the
  response, the protocol read, the initializer when there is one, and a log entry.
\<close>

definition start_events :: "v8_t \<Rightarrow> int \<Rightarrow> event list" where
  "start_events v8 sock =
     [Request_create, Response_create sock, Scgi_request_read sock]
     @ (case app_init v8 of None \<Rightarrow> [] | Some f \<Rightarrow> [App_init f])
     @ [Log Debug ''Request receiveid -> Method: %d Path: %s'' []]"

text \<open>
  An event of the worker that works on no descriptor but the connection socket and not on
  the dispatcher.
\<close>

definition own_event :: "int \<Rightarrow> event \<Rightarrow> bool" where
  "own_event sock e = (set (event_fds e) \<subseteq> {sock} \<and> \<not> uses_dispatcher e)"

text \<open>
  The first four calls of \<open>v8_child_exec\<close>, and the server structure after them.
\<close>

definition teardown :: "world \<Rightarrow> v8_t \<Rightarrow> event list" where
  "teardown w v8 =
     [Close (sigfd v8), Close (sockfd v8), Dispatcher_destroy (dispatcher v8),
      Sigprocmask_unblock (sigprocmask_ret w)]"

definition released :: "v8_t \<Rightarrow> v8_t" where
  "released v8 = v8\<lparr>sigfd := - 1, sockfd := - 1, dispatcher := None\<rparr>"

section \<open>A small application\<close>

text \<open>
  A table mounted under \<open>/app\<close>: a ping route, an entry without a path, an administration
  route guarded by a filter, a duplicate of it, and the sentinel. The filter (7) hands
  over the handler 9, which answers "unauthorized", for a request without parameters.
\<close>

definition example_table :: "V8Action list" where
  "example_table =
     [\<lparr>method' = V8_METHOD_GET, route = Some ''/ping'', handler = 1, filter' = None\<rparr>,
      \<lparr>method' = V8_METHOD_GET, route = None, handler = 5, filter' = None\<rparr>,
      \<lparr>method' = V8_METHOD_POST, route = Some ''/admin'', handler = 2, filter' = Some 7\<rparr>,
      \<lparr>method' = V8_METHOD_POST, route = Some ''/admin'', handler = 3, filter' = None\<rparr>,
      \<lparr>method' = V8_METHOD_UNKNOWN, route = None, handler = 0, filter' = None\<rparr>]"

definition example_world :: "V8Request option \<Rightarrow> world" where
  "example_world r =
     \<lparr>sigprocmask_ret = 0,
      scgi_request = r,
      initializers = (\<lambda>f. Some 42),
      filters = (\<lambda>f request. if f = 7 \<and> req_params request = [] then Some 9 else None),
      handlers = (\<lambda>h request response.
         if h = 9 then response\<lparr>resp_status := V8_STATUS_OTHER 401\<rparr>
         else response\<lparr>resp_body := ''pong''\<rparr>)\<rparr>"

definition example_v8 :: v8_t where
  "example_v8 =
     \<lparr>sockfd = 3, sigfd = 4, base_size = 4, config = [], dispatcher = Some 1,
      actions = example_table, app_data = None, app_init = None\<rparr>"

definition ping_request :: V8Request where
  "ping_request = \<lparr>req_method = V8_METHOD_GET, req_route = ''/app/ping'', req_params = []\<rparr>"

definition admin_request :: V8Request where
  "admin_request = \<lparr>req_method = V8_METHOD_POST, req_route = ''/app/admin'', req_params = []\<rparr>"

definition signed_request :: V8Request where
  "signed_request =
     \<lparr>req_method = V8_METHOD_POST, req_route = ''/app/admin'',
      req_params = [(''token'', ''x'')]\<rparr>"

definition missing_request :: V8Request where
  "missing_request =
     \<lparr>req_method = V8_METHOD_GET, req_route = ''/app/missing'', req_params = []\<rparr>"

definition short_request :: V8Request where
  "short_request = \<lparr>req_method = V8_METHOD_GET, req_route = ''/a'', req_params = []\<rparr>"

text \<open>
  A parent in which the second \<open>fork\<close> fails, and a process table with three ended
  children and one that is still running.
\<close>

definition example_forks :: "nat \<Rightarrow> int" where
  "example_forks k = (if k = 1 then - 1 else 100 + int k)"

definition example_procs :: proc_table where
  "example_procs =
     \<lparr>zombies = [(101, W_exited 0), (102, W_signaled 11), (103, W_exited 1)],
      running = [104]\<rparr>"

section \<open>Properties of the router\<close>

subsection \<open>Comparing C strings\<close>

lemma strcmp_c_str:
  "NUL \<notin> set xs \<Longrightarrow> NUL \<notin> set ys \<Longrightarrow>
   \<exists>c. strcmp (c_str xs) (c_str ys) = Some c \<and> (c = 0 \<longleftrightarrow> xs = ys)"
proof (induction xs arbitrary: ys)
  case Nil
  then show ?case by (cases ys) (auto simp: c_str_def)
next
  case (Cons x xs)
  show ?case
  proof (cases ys)
    case Nil
    with Cons.prems show ?thesis by (auto simp: c_str_def)
  next
    case (Cons y ys')
    with Cons.prems Cons.IH [of ys'] show ?thesis by (auto simp: c_str_def)
  qed
qed

lemma drop_c_str: "n \<le> length p \<Longrightarrow> drop n (c_str p) = c_str (drop n p)"
  by (simp add: c_str_def)

lemma strcmp_overrun: "length p < n \<Longrightarrow> strcmp (drop n (c_str p)) ys = None"
  by (simp add: c_str_def)

lemma c_routes_route: "c_routes acts \<Longrightarrow> a \<in> set acts \<Longrightarrow> route a = Some r \<Longrightarrow> NUL \<notin> set r"
  by (auto simp: c_routes_def list_all_iff split: option.splits)

lemma action_matches_wf:
  assumes "NUL \<notin> set (req_route request)" "bs \<le> length (req_route request)"
    and "\<And>r. route a = Some r \<Longrightarrow> NUL \<notin> set r"
  shows "action_matches bs request a =
           Inr (entry_selects (req_method request) (drop bs (req_route request)) a)"
proof (cases "route a")
  case None
  then show ?thesis
    by (simp add: action_matches_def entry_selects_def)
next
  case (Some r)
  have "NUL \<notin> set (drop bs (req_route request))"
    using assms(1) by (meson in_set_dropD)
  with assms(3) [OF Some] obtain c where
    "strcmp (c_str (drop bs (req_route request))) (c_str r) = Some c"
    "c = 0 \<longleftrightarrow> drop bs (req_route request) = r"
    using strcmp_c_str by blast
  with Some assms(2) show ?thesis
    by (auto simp: action_matches_def entry_selects_def v8_request_method_def
        v8_request_route_def drop_c_str)
qed

subsection \<open>The loop over the table\<close>

lemma first_index_Some:
  "first_index P xs = Some k \<longleftrightarrow> k < length xs \<and> P (xs ! k) \<and> (\<forall>j<k. \<not> P (xs ! j))"
proof (induction xs arbitrary: k)
  case Nil
  then show ?case by simp
next
  case (Cons x xs)
  show ?case
  proof (cases "P x")
    case True
    then show ?thesis by (cases k) auto
  next
    case False
    show ?thesis
    proof (cases k)
      case 0
      with False show ?thesis by simp
    next
      case (Suc k')
      with False Cons.IH [of k'] show ?thesis
        by (auto simp: less_Suc_eq_0_disj)
    qed
  qed
qed

lemma first_index_None: "first_index P xs = None \<longleftrightarrow> (\<forall>x \<in> set xs. \<not> P x)"
  by (induction xs) auto

lemma route_loop_from:
  assumes acts: "acts = es @ s # rest"
    and es: "\<forall>a \<in> set es. method' a \<noteq> V8_METHOD_UNKNOWN"
    and s: "method' s = V8_METHOD_UNKNOWN"
    and m: "\<forall>a \<in> set es. action_matches bs request a = Inr (P a)"
  shows "i \<le> length es \<Longrightarrow>
         route_loop w acts bs request response i =
           (case first_index P (drop i es) of
              None \<Rightarrow> Inr ([], response, length es)
            | Some k \<Rightarrow>
                Inr (fst (run_action w (es ! (i + k)) request response),
                     snd (run_action w (es ! (i + k)) request response), i + k))"
proof (induction "length es - i" arbitrary: i)
  case 0
  then have i: "i = length es" by simp
  show ?case
    by (subst route_loop.simps) (simp add: i acts s)
next
  case (Suc n)
  then have lt: "i < length es" by simp
  then have nth: "acts ! i = es ! i" and mem: "es ! i \<in> set es"
    by (simp_all add: acts nth_append)
  have d: "drop i es = es ! i # drop (Suc i) es"
    using lt by (simp add: Cons_nth_drop_Suc)
  have len: "\<not> length acts \<le> i" using lt by (simp add: acts)
  show ?case
  proof (cases "P (es ! i)")
    case True
    with es m mem len show ?thesis
      by (subst route_loop.simps) (simp add: nth d split: prod.splits)
  next
    case False
    have IH: "route_loop w acts bs request response (Suc i) =
           (case first_index P (drop (Suc i) es) of
              None \<Rightarrow> Inr ([], response, length es)
            | Some k \<Rightarrow>
                Inr (fst (run_action w (es ! (Suc i + k)) request response),
                     snd (run_action w (es ! (Suc i + k)) request response), Suc i + k))"
      using Suc.hyps(1) [of "Suc i"] Suc.hyps(2) lt by simp
    from False es m mem len show ?thesis
      by (subst route_loop.simps) (simp add: nth d IH split: option.splits)
  qed
qed

lemma table_split:
  assumes "V8_METHOD_UNKNOWN \<in> set (map method' acts)"
  shows "\<exists>s rest. acts = table_entries acts @ s # rest \<and> method' s = V8_METHOD_UNKNOWN"
proof -
  let ?P = "\<lambda>a. method' a \<noteq> V8_METHOD_UNKNOWN"
  from assms obtain x where "x \<in> set acts" "\<not> ?P x" by auto
  then have "dropWhile ?P acts \<noteq> []"
    by auto
  then obtain s rest where d: "dropWhile ?P acts = s # rest"
    by (cases "dropWhile ?P acts") auto
  then have "\<not> ?P s"
    using hd_dropWhile [of ?P acts] by simp
  moreover have "acts = takeWhile ?P acts @ s # rest"
    using takeWhile_dropWhile_id [of ?P acts] d by simp
  ultimately show ?thesis
    by (auto simp: table_entries_def)
qed

lemma table_entries_method: "a \<in> set (table_entries acts) \<Longrightarrow> method' a \<noteq> V8_METHOD_UNKNOWN"
  by (auto simp: table_entries_def dest: set_takeWhileD)

lemma table_entries_subset: "a \<in> set (table_entries acts) \<Longrightarrow> a \<in> set acts"
  by (auto simp: table_entries_def dest: set_takeWhileD)

lemma table_entries_nth: "i < length (table_entries acts) \<Longrightarrow> table_entries acts ! i = acts ! i"
  by (simp add: table_entries_def takeWhile_nth)

text \<open>The loop on a well-formed table and request, from the start.\<close>

lemma route_loop_wf:
  assumes sentinel: "V8_METHOD_UNKNOWN \<in> set (map method' acts)"
    and routes: "c_routes acts"
    and nul: "NUL \<notin> set (req_route request)"
    and len: "bs \<le> length (req_route request)"
  shows "route_loop w acts bs request response 0 =
           (case first_index (entry_selects (req_method request) (drop bs (req_route request)))
                   (table_entries acts) of
              None \<Rightarrow> Inr ([], response, length (table_entries acts))
            | Some k \<Rightarrow>
                Inr (fst (run_action w (acts ! k) request response),
                     snd (run_action w (acts ! k) request response), k))"
proof -
  from table_split [OF sentinel] obtain s rest where
    acts: "acts = table_entries acts @ s # rest" and s: "method' s = V8_METHOD_UNKNOWN"
    by blast
  let ?P = "entry_selects (req_method request) (drop bs (req_route request))"
  have m: "\<forall>a \<in> set (table_entries acts). action_matches bs request a = Inr (?P a)"
    using action_matches_wf [OF nul len] c_routes_route [OF routes] table_entries_subset
    by blast
  have es: "\<forall>a \<in> set (table_entries acts). method' a \<noteq> V8_METHOD_UNKNOWN"
    using table_entries_method by blast
  have "route_loop w acts bs request response 0 =
           (case first_index ?P (drop 0 (table_entries acts)) of
              None \<Rightarrow> Inr ([], response, length (table_entries acts))
            | Some k \<Rightarrow>
                Inr (fst (run_action w (table_entries acts ! (0 + k)) request response),
                     snd (run_action w (table_entries acts ! (0 + k)) request response), 0 + k))"
    by (rule route_loop_from [OF acts es s m]) simp
  then have loop: "route_loop w acts bs request response 0 =
           (case first_index ?P (table_entries acts) of
              None \<Rightarrow> Inr ([], response, length (table_entries acts))
            | Some k \<Rightarrow>
                Inr (fst (run_action w (table_entries acts ! k) request response),
                     snd (run_action w (table_entries acts ! k) request response), k))"
    by (simp split: option.splits)
  show ?thesis
  proof (cases "first_index ?P (table_entries acts)")
    case None
    with loop show ?thesis by simp
  next
    case (Some k)
    then have "k < length (table_entries acts)"
      by (simp add: first_index_Some)
    with loop Some show ?thesis
      by (simp add: table_entries_nth)
  qed
qed


lemma route_index_cases:
  "(route_index acts bs m p = length (table_entries acts) \<and>
      first_index (entry_selects m (drop bs p)) (table_entries acts) = None) \<or>
   (route_index acts bs m p < length (table_entries acts) \<and>
      first_index (entry_selects m (drop bs p)) (table_entries acts)
        = Some (route_index acts bs m p))"
proof (cases "first_index (entry_selects m (drop bs p)) (table_entries acts)")
  case None
  then show ?thesis by (simp add: route_index_def)
next
  case (Some k)
  then have "k < length (table_entries acts)"
    by (simp add: first_index_Some)
  with Some show ?thesis by (simp add: route_index_def)
qed

lemma route_index_first:
  assumes "k < length (table_entries acts)"
    and "entry_selects m (drop bs p) (acts ! k)"
    and "\<forall>j<k. \<not> entry_selects m (drop bs p) (acts ! j)"
  shows "first_index (entry_selects m (drop bs p)) (table_entries acts) = Some k"
  using assms by (simp add: first_index_Some table_entries_nth)

lemma loop_index_wf:
  assumes "V8_METHOD_UNKNOWN \<in> set (map method' acts)" "c_routes acts"
    "NUL \<notin> set (req_route request)" "bs \<le> length (req_route request)"
  shows "loop_index (route_loop w acts bs request response 0) =
           Some (route_index acts bs (req_method request) (req_route request))"
  by (simp add: route_loop_wf [OF assms] loop_index_def route_index_def split: option.splits)

lemma route_loop_index_facts:
  assumes sentinel: "V8_METHOD_UNKNOWN \<in> set (map method' acts)"
    and routes: "c_routes acts"
    and nul: "NUL \<notin> set (req_route request)"
    and len: "bs \<le> length (req_route request)"
  shows "loop_index (route_loop w acts bs request response 0) =
           Some (route_index acts bs (req_method request) (req_route request)) \<and>
         route_index acts bs (req_method request) (req_route request)
           \<le> length (table_entries acts) \<and>
         (route_index acts bs (req_method request) (req_route request)
            < length (table_entries acts) \<longrightarrow>
          entry_selects (req_method request) (drop bs (req_route request))
            (acts ! route_index acts bs (req_method request) (req_route request))) \<and>
         (\<forall>j < route_index acts bs (req_method request) (req_route request).
            \<not> entry_selects (req_method request) (drop bs (req_route request)) (acts ! j)) \<and>
         (\<forall>j k. j < k \<and> method' (acts ! j) = method' (acts ! k) \<and> route (acts ! j) = route (acts ! k)
            \<longrightarrow> route_index acts bs (req_method request) (req_route request) \<noteq> k) \<and>
         (\<forall>w' request' response'.
            req_method request' = req_method request \<and> req_route request' = req_route request
            \<longrightarrow> loop_index (route_loop w' acts bs request' response' 0) =
                loop_index (route_loop w acts bs request response 0))"
proof -
  let ?m = "req_method request" and ?p = "drop bs (req_route request)"
  let ?i = "route_index acts bs (req_method request) (req_route request)"
  let ?n = "length (table_entries acts)"
  have idx: "loop_index (route_loop w acts bs request response 0) = Some ?i"
    by (rule loop_index_wf [OF assms])
  have le: "?i \<le> ?n"
    using route_index_cases [of acts bs ?m "req_route request"] by auto
  have sel: "?i < ?n \<longrightarrow> entry_selects ?m ?p (acts ! ?i)"
    using route_index_cases [of acts bs ?m "req_route request"]
    by (auto simp: first_index_Some table_entries_nth)
  have before: "\<forall>j < ?i. \<not> entry_selects ?m ?p (acts ! j)"
  proof (intro allI impI)
    fix j assume j: "j < ?i"
    with le have jn: "j < ?n" by simp
    from route_index_cases [of acts bs ?m "req_route request"]
    show "\<not> entry_selects ?m ?p (acts ! j)"
    proof
      assume "?i = ?n \<and> first_index (entry_selects ?m ?p) (table_entries acts) = None"
      then have "\<not> entry_selects ?m ?p (table_entries acts ! j)"
        using jn by (simp add: first_index_None)
      with jn show ?thesis by (simp add: table_entries_nth)
    next
      assume "?i < ?n \<and> first_index (entry_selects ?m ?p) (table_entries acts) = Some ?i"
      then have "\<not> entry_selects ?m ?p (table_entries acts ! j)"
        using j by (simp add: first_index_Some)
      with jn show ?thesis by (simp add: table_entries_nth)
    qed
  qed
  have dup: "\<forall>j k. j < k \<and> method' (acts ! j) = method' (acts ! k) \<and> route (acts ! j) = route (acts ! k)
            \<longrightarrow> ?i \<noteq> k"
  proof (intro allI impI notI)
    fix j k
    assume jk: "j < k \<and> method' (acts ! j) = method' (acts ! k) \<and> route (acts ! j) = route (acts ! k)"
      and ik: "?i = k"
    from jk ik before have nj: "\<not> entry_selects ?m ?p (acts ! j)" by simp
    show False
    proof (cases "?i < ?n")
      case True
      with sel ik jk nj show False by (simp add: entry_selects_def)
    next
      case False
      with le ik have kn: "k = ?n" by simp
      from table_split [OF sentinel] obtain s rest where
        acts: "acts = table_entries acts @ s # rest" and s: "method' s = V8_METHOD_UNKNOWN"
        by blast
      have "acts ! k = s"
        by (subst acts) (simp add: kn)
      with s have "method' (acts ! k) = V8_METHOD_UNKNOWN" by simp
      moreover have jn: "j < ?n" using jk kn by simp
      then have "table_entries acts ! j \<in> set (table_entries acts)"
        by (rule nth_mem)
      then have "method' (table_entries acts ! j) \<noteq> V8_METHOD_UNKNOWN"
        by (rule table_entries_method)
      with jn have "method' (acts ! j) \<noteq> V8_METHOD_UNKNOWN"
        by (simp add: table_entries_nth)
      ultimately show False using jk by simp
    qed
  qed
  have det: "\<forall>w' request' response'.
            req_method request' = req_method request \<and> req_route request' = req_route request
            \<longrightarrow> loop_index (route_loop w' acts bs request' response' 0) =
                loop_index (route_loop w acts bs request response 0)"
  proof (intro allI impI)
    fix w' :: world and request' :: V8Request and response' :: V8Response
    assume same: "req_method request' = req_method request \<and> req_route request' = req_route request"
    then have "loop_index (route_loop w' acts bs request' response' 0) = Some ?i"
      using loop_index_wf [of acts request' bs w' response'] sentinel routes nul len by simp
    with idx show "loop_index (route_loop w' acts bs request' response' 0) =
                loop_index (route_loop w acts bs request response 0)" by simp
  qed
  from idx le sel before dup det show ?thesis by blast
qed

lemma run_action_calls:
  "filter_calls (fst (run_action w a request response)) =
     (case filter' a of None \<Rightarrow> [] | Some f \<Rightarrow> [f])"
  "handler_calls (fst (run_action w a request response)) = [chosen_handler w request a]"
  "snd (run_action w a request response) =
     call_handler w (chosen_handler w request a) request response"
  by (simp_all add: run_action_def chosen_handler_def split: option.splits)

lemma route_loop_value:
  assumes sentinel: "V8_METHOD_UNKNOWN \<in> set (map method' acts)"
    and routes: "c_routes acts"
    and nul: "NUL \<notin> set (req_route request)"
    and len: "bs \<le> length (req_route request)"
  shows "route_loop w acts bs request response 0 =
           (if route_index acts bs (req_method request) (req_route request)
                 < length (table_entries acts)
            then Inr (fst (run_action w
                        (acts ! route_index acts bs (req_method request) (req_route request))
                        request response),
                      snd (run_action w
                        (acts ! route_index acts bs (req_method request) (req_route request))
                        request response),
                      route_index acts bs (req_method request) (req_route request))
            else Inr ([], response, length (table_entries acts)))"
  using route_index_cases [of acts bs "req_method request" "req_route request"]
  by (auto simp: route_loop_wf [OF assms])

text \<open>
  Claim C4, as amended. On a table closed by a sentinel, and for a request whose path is at
  least as long as the base prefix, the loop is left with \<open>i\<close> at the first entry, in
  the order of the table, whose method is the method of the request and whose stored path
  is exactly the path of the request without its first \<open>base_size\<close> characters, and at
  the sentinel when no entry is such. No entry before that index answers the request. An
  entry that repeats the method and the path of an earlier entry is never the one the
  loop stops at. The index depends on the table, the prefix length, the method and the
  path only: any other run on the same method and path, whatever the rest of the request
  and whatever the application code, stops at the same entry. At the selected entry the
  filter, when there is one, is called once, and then exactly one handler: the stored
  handler when the entry has no filter or its filter returns \<open>NULL\<close>, the handler the
  filter returns otherwise; the response is the one that handler leaves. At the sentinel
  nothing is called and the response is untouched. When the selected entry has no filter,
  any other run on the same method and path calls the same handler.
\<close>

theorem router_first_match:
  assumes sentinel: "V8_METHOD_UNKNOWN \<in> set (map method' acts)"
    and routes: "c_routes acts"
    and nul: "NUL \<notin> set (req_route request)"
    and len: "bs \<le> length (req_route request)"
  shows "loop_index (route_loop w acts bs request response 0) =
           Some (route_index acts bs (req_method request) (req_route request)) \<and>
         route_index acts bs (req_method request) (req_route request)
           \<le> length (table_entries acts) \<and>
         (route_index acts bs (req_method request) (req_route request)
            < length (table_entries acts) \<longrightarrow>
          entry_selects (req_method request) (drop bs (req_route request))
            (acts ! route_index acts bs (req_method request) (req_route request))) \<and>
         (\<forall>j < route_index acts bs (req_method request) (req_route request).
            \<not> entry_selects (req_method request) (drop bs (req_route request)) (acts ! j)) \<and>
         (\<forall>j k. j < k \<and> method' (acts ! j) = method' (acts ! k) \<and> route (acts ! j) = route (acts ! k)
            \<longrightarrow> route_index acts bs (req_method request) (req_route request) \<noteq> k) \<and>
         (\<forall>w' request' response'.
            req_method request' = req_method request \<and> req_route request' = req_route request
            \<longrightarrow> loop_index (route_loop w' acts bs request' response' 0) =
                loop_index (route_loop w acts bs request response 0)) \<and>
         (route_index acts bs (req_method request) (req_route request)
            < length (table_entries acts) \<longrightarrow>
          filter_calls (loop_events (route_loop w acts bs request response 0)) =
            (case filter' (acts ! route_index acts bs (req_method request) (req_route request)) of
               None \<Rightarrow> [] | Some f \<Rightarrow> [f]) \<and>
          handler_calls (loop_events (route_loop w acts bs request response 0)) =
            [chosen_handler w request
               (acts ! route_index acts bs (req_method request) (req_route request))] \<and>
          loop_response (route_loop w acts bs request response 0) =
            Some (call_handler w
                    (chosen_handler w request
                       (acts ! route_index acts bs (req_method request) (req_route request)))
                    request response)) \<and>
         (route_index acts bs (req_method request) (req_route request)
            = length (table_entries acts) \<longrightarrow>
          loop_events (route_loop w acts bs request response 0) = [] \<and>
          loop_response (route_loop w acts bs request response 0) = Some response) \<and>
         (\<forall>w' request' response'.
            req_method request' = req_method request \<and> req_route request' = req_route request \<and>
            filter' (acts ! route_index acts bs (req_method request) (req_route request)) = None
            \<longrightarrow> handler_calls (loop_events (route_loop w' acts bs request' response' 0)) =
                handler_calls (loop_events (route_loop w acts bs request response 0)))"
proof -
  let ?i = "route_index acts bs (req_method request) (req_route request)"
  let ?n = "length (table_entries acts)"
  let ?R = "route_loop w acts bs request response 0"
  note index = route_loop_index_facts [OF assms, of w response]
  have val: "?R = (if ?i < ?n
                   then Inr (fst (run_action w (acts ! ?i) request response),
                             snd (run_action w (acts ! ?i) request response), ?i)
                   else Inr ([], response, ?n))"
    by (rule route_loop_value [OF assms])
  have le: "?i \<le> ?n"
    using index by blast
  have hit: "?i < ?n \<longrightarrow>
          filter_calls (loop_events ?R) =
            (case filter' (acts ! ?i) of None \<Rightarrow> [] | Some f \<Rightarrow> [f]) \<and>
          handler_calls (loop_events ?R) = [chosen_handler w request (acts ! ?i)] \<and>
          loop_response ?R =
            Some (call_handler w (chosen_handler w request (acts ! ?i)) request response)"
    by (simp add: val loop_events_def loop_response_def run_action_calls)
  have miss: "?i = ?n \<longrightarrow> loop_events ?R = [] \<and> loop_response ?R = Some response"
    by (simp add: val loop_events_def loop_response_def)
  have plain: "\<forall>w' request' response'.
            req_method request' = req_method request \<and> req_route request' = req_route request \<and>
            filter' (acts ! ?i) = None
            \<longrightarrow> handler_calls (loop_events (route_loop w' acts bs request' response' 0)) =
                handler_calls (loop_events ?R)"
  proof (intro allI impI)
    fix w' :: world and request' :: V8Request and response' :: V8Response
    assume same: "req_method request' = req_method request \<and>
      req_route request' = req_route request \<and> filter' (acts ! ?i) = None"
    have val': "route_loop w' acts bs request' response' 0 =
                  (if ?i < ?n
                   then Inr (fst (run_action w' (acts ! ?i) request' response'),
                             snd (run_action w' (acts ! ?i) request' response'), ?i)
                   else Inr ([], response', ?n))"
      using route_loop_value [of acts request' bs w' response'] sentinel routes nul len same
      by simp
    from same show "handler_calls (loop_events (route_loop w' acts bs request' response' 0)) =
                handler_calls (loop_events ?R)"
      by (simp add: val val' loop_events_def run_action_calls chosen_handler_def)
  qed
  from index hit miss plain show ?thesis
    by blast
qed

theorem router_first_match_witness:
  "V8_METHOD_UNKNOWN \<in> set (map method' example_table) \<and> c_routes example_table \<and>
   NUL \<notin> set (req_route admin_request) \<and> 4 \<le> length (req_route admin_request) \<and>
   route_index example_table 4 (req_method admin_request) (req_route admin_request) = 2 \<and>
   2 < length (table_entries example_table) \<and>
   loop_index (route_loop (example_world None) example_table 4 admin_request
     (v8_response_create admin_request 5) 0) = Some 2 \<and>
   filter_calls (loop_events (route_loop (example_world None) example_table 4 admin_request
     (v8_response_create admin_request 5) 0)) = [7] \<and>
   handler_calls (loop_events (route_loop (example_world None) example_table 4 admin_request
     (v8_response_create admin_request 5) 0)) = [9]"
proof -
  have h1: "V8_METHOD_UNKNOWN \<in> set (map method' example_table)"
    by (simp add: example_table_def)
  have h2: "c_routes example_table"
    by (simp add: c_routes_def example_table_def NUL_def)
  have h3: "NUL \<notin> set (req_route admin_request)"
    by (simp add: admin_request_def NUL_def)
  have h4: "4 \<le> length (req_route admin_request)"
    by (simp add: admin_request_def)
  have r: "route_index example_table 4 (req_method admin_request) (req_route admin_request) = 2"
    by (simp add: route_index_def table_entries_def example_table_def entry_selects_def
        admin_request_def)
  have n: "2 < length (table_entries example_table)"
    by (simp add: table_entries_def example_table_def)
  have c: "filter' (example_table ! 2) = Some 7"
    "chosen_handler (example_world None) admin_request (example_table ! 2) = 9"
    by (simp_all add: chosen_handler_def example_table_def example_world_def admin_request_def)
  let ?R = "route_loop (example_world None) example_table 4 admin_request
     (v8_response_create admin_request 5) 0"
  from router_first_match [OF h1 h2 h3 h4, of "example_world None"
      "v8_response_create admin_request 5"]
  have "loop_index ?R = Some 2 \<and> filter_calls (loop_events ?R) = [7] \<and>
        handler_calls (loop_events ?R) = [9]"
    by (simp only: r n c simp_thms option.case)
  with h1 h2 h3 h4 r n show ?thesis
    by blast
qed

text \<open>
  Claim C4, as stated, fails where it says that a fixed table, method and path always give
  the same handler: the selected entry is the same, but its filter sees the whole
  request. With one table and one application, the request for \<open>/app/admin\<close> without
  parameters is handled by the handler 9 that the filter substitutes, and the request for
  the same method and path with a parameter by the stored handler 2.
\<close>

theorem router_handler_varies_with_filter:
  "req_method signed_request = req_method admin_request \<and>
   req_route signed_request = req_route admin_request \<and>
   handler_calls (loop_events (route_loop (example_world None) example_table 4 admin_request
     (v8_response_create admin_request 5) 0)) = [9] \<and>
   handler_calls (loop_events (route_loop (example_world None) example_table 4 signed_request
     (v8_response_create admin_request 5) 0)) = [2]"
proof -
  have wf: "V8_METHOD_UNKNOWN \<in> set (map method' example_table)" "c_routes example_table"
    by (simp_all add: c_routes_def example_table_def NUL_def)
  have same: "req_method signed_request = req_method admin_request"
    "req_route signed_request = req_route admin_request"
    by (simp_all add: signed_request_def admin_request_def)
  have p: "NUL \<notin> set (req_route admin_request)" "4 \<le> length (req_route admin_request)"
    by (simp_all add: admin_request_def NUL_def)
  have p': "NUL \<notin> set (req_route signed_request)" "4 \<le> length (req_route signed_request)"
    by (simp_all add: signed_request_def NUL_def)
  have r: "route_index example_table 4 (req_method admin_request) (req_route admin_request) = 2"
    by (simp add: route_index_def table_entries_def example_table_def entry_selects_def
        admin_request_def)
  have n: "2 < length (table_entries example_table)"
    by (simp add: table_entries_def example_table_def)
  have c: "chosen_handler (example_world None) admin_request (example_table ! 2) = 9"
    "chosen_handler (example_world None) signed_request (example_table ! 2) = 2"
    by (simp_all add: chosen_handler_def example_table_def example_world_def admin_request_def
        signed_request_def)
  have a: "handler_calls (loop_events (route_loop (example_world None) example_table 4
     admin_request (v8_response_create admin_request 5) 0)) = [9]"
    by (simp add: route_loop_value [OF wf p] r n loop_events_def run_action_calls c)
  have b: "handler_calls (loop_events (route_loop (example_world None) example_table 4
     signed_request (v8_response_create admin_request 5) 0)) = [2]"
    by (simp add: route_loop_value [OF wf p'] same r n loop_events_def run_action_calls c)
  from same a b show ?thesis
    by blast
qed

subsection \<open>The request handler\<close>

lemma handler_calls_append: "handler_calls (xs @ ys) = handler_calls xs @ handler_calls ys"
  by (induction xs rule: handler_calls.induct) simp_all

lemma filter_calls_append: "filter_calls (xs @ ys) = filter_calls xs @ filter_calls ys"
  by (induction xs rule: filter_calls.induct) simp_all

lemma sent_responses_append: "sent_responses (xs @ ys) = sent_responses xs @ sent_responses ys"
  by (induction xs rule: sent_responses.induct) simp_all

lemma table_entries_nth_method:
  assumes "k < length (table_entries acts)"
  shows "method' (acts ! k) \<noteq> V8_METHOD_UNKNOWN"
proof -
  from assms have "table_entries acts ! k \<in> set (table_entries acts)"
    by (rule nth_mem)
  then have "method' (table_entries acts ! k) \<noteq> V8_METHOD_UNKNOWN"
    by (rule table_entries_method)
  with assms show ?thesis
    by (simp add: table_entries_nth)
qed

lemma v8_request_handler_routed:
  assumes "scgi_request w = Some request"
    and "route_loop w (actions v8) (base_size v8) request (v8_response_create request sock) 0
           = Inr (evs, response', i)"
  shows "v8_request_handler w v8 sock =
           ((case app_init v8 of None \<Rightarrow> v8 | Some f \<Rightarrow> v8\<lparr>app_data := initializers w f\<rparr>),
            start_events v8 sock @ evs
            @ (if method' (actions v8 ! i) = V8_METHOD_UNKNOWN
               then [Log Warn ''Action not found %s'' [],
                     Response_set_status V8_STATUS_NOT_FOUND,
                     Response_send (v8_response_set_status response' V8_STATUS_NOT_FOUND)]
               else [Response_send response'])
            @ [Response_destroy, Request_destroy, Close sock],
            Returns 0)"
  using assms
  by (cases "app_init v8") (simp_all add: v8_request_handler_def start_events_def)

lemma start_events_calls:
  "handler_calls (start_events v8 sock) = []" "filter_calls (start_events v8 sock) = []"
  "sent_responses (start_events v8 sock) = []"
  by (cases "app_init v8"; simp add: start_events_def)+

text \<open>
  Claim C5. Let a request be read whose first answering entry, at index \<open>k\<close>, has a
  filter \<open>f\<close>. Then the loop is left at \<open>k\<close>, and in the whole run of the request
  handler the filter \<open>f\<close> is the only filter called and exactly one handler is called:
  the handler the filter returned when it returned one (the stored handler of the entry
  gets no call of its own), and the stored handler of the entry when the filter returned
  \<open>NULL\<close>. The response sent is the one that handler left. No later entry is looked at.
\<close>

theorem filter_short_circuit:
  assumes read: "scgi_request w = Some request"
    and sentinel: "V8_METHOD_UNKNOWN \<in> set (map method' (actions v8))"
    and routes: "c_routes (actions v8)"
    and nul: "NUL \<notin> set (req_route request)"
    and len: "base_size v8 \<le> length (req_route request)"
    and k: "k < length (table_entries (actions v8))"
    and sel: "entry_selects (req_method request) (drop (base_size v8) (req_route request))
                (actions v8 ! k)"
    and first: "\<forall>j<k. \<not> entry_selects (req_method request)
                (drop (base_size v8) (req_route request)) (actions v8 ! j)"
    and f: "filter' (actions v8 ! k) = Some f"
  shows "loop_index (route_loop w (actions v8) (base_size v8) request
             (v8_response_create request sock) 0) = Some k \<and>
         (case v8_request_handler w v8 sock of
            (v8', tr, out) \<Rightarrow>
              out = Returns 0 \<and> filter_calls tr = [f] \<and>
              (case filters w f request of
                 Some h \<Rightarrow>
                   handler_calls tr = [h] \<and>
                   sent_responses tr =
                     [call_handler w h request (v8_response_create request sock)]
               | None \<Rightarrow>
                   handler_calls tr = [handler (actions v8 ! k)] \<and>
                   sent_responses tr =
                     [call_handler w (handler (actions v8 ! k)) request
                        (v8_response_create request sock)]))"
proof -
  let ?resp = "v8_response_create request sock"
  let ?a = "actions v8 ! k"
  have fi: "first_index (entry_selects (req_method request)
                (drop (base_size v8) (req_route request))) (table_entries (actions v8)) = Some k"
    by (rule route_index_first [OF k sel first])
  have loop: "route_loop w (actions v8) (base_size v8) request ?resp 0 =
           Inr (fst (run_action w ?a request ?resp), snd (run_action w ?a request ?resp), k)"
    by (simp add: route_loop_wf [OF sentinel routes nul len] fi)
  have nu: "method' ?a \<noteq> V8_METHOD_UNKNOWN"
    by (rule table_entries_nth_method [OF k])
  have idx: "loop_index (route_loop w (actions v8) (base_size v8) request ?resp 0) = Some k"
    by (simp add: loop loop_index_def)
  show ?thesis
  proof (cases "filters w f request")
    case None
    with f nu idx show ?thesis
      by (simp add: v8_request_handler_routed [OF read loop] run_action_def
          handler_calls_append filter_calls_append sent_responses_append start_events_calls)
  next
    case (Some h)
    with f nu idx show ?thesis
      by (simp add: v8_request_handler_routed [OF read loop] run_action_def
          handler_calls_append filter_calls_append sent_responses_append start_events_calls)
  qed
qed


text \<open>
  Claim C6. When no entry before the sentinel answers the request, the request handler
  calls no handler and no filter; after the start of the run it only logs the miss, sets
  the status of the untouched response to "not found" and sends it, with the empty body
  it was created with, before destroying it and closing the socket.
\<close>

theorem no_match_not_found:
  assumes read: "scgi_request w = Some request"
    and sentinel: "V8_METHOD_UNKNOWN \<in> set (map method' (actions v8))"
    and routes: "c_routes (actions v8)"
    and nul: "NUL \<notin> set (req_route request)"
    and len: "base_size v8 \<le> length (req_route request)"
    and none: "\<forall>a \<in> set (table_entries (actions v8)).
                 \<not> entry_selects (req_method request)
                     (drop (base_size v8) (req_route request)) a"
  shows "case v8_request_handler w v8 sock of
           (v8', tr, out) \<Rightarrow>
             out = Returns 0 \<and> handler_calls tr = [] \<and> filter_calls tr = [] \<and>
             sent_responses tr =
               [\<lparr>resp_sock = sock, resp_status = V8_STATUS_NOT_FOUND, resp_body = []\<rparr>] \<and>
             tr = start_events v8 sock
                  @ [Log Warn ''Action not found %s'' [],
                     Response_set_status V8_STATUS_NOT_FOUND,
                     Response_send
                       \<lparr>resp_sock = sock, resp_status = V8_STATUS_NOT_FOUND, resp_body = []\<rparr>,
                     Response_destroy, Request_destroy, Close sock]"
proof -
  let ?resp = "v8_response_create request sock"
  let ?n = "length (table_entries (actions v8))"
  have fi: "first_index (entry_selects (req_method request)
                (drop (base_size v8) (req_route request))) (table_entries (actions v8)) = None"
    using none by (simp add: first_index_None)
  have loop: "route_loop w (actions v8) (base_size v8) request ?resp 0 = Inr ([], ?resp, ?n)"
    by (simp add: route_loop_wf [OF sentinel routes nul len] fi)
  from table_split [OF sentinel] obtain s rest where
    acts: "actions v8 = table_entries (actions v8) @ s # rest"
    and s: "method' s = V8_METHOD_UNKNOWN"
    by blast
  have "actions v8 ! ?n = s"
    by (subst acts) simp
  with s have un: "method' (actions v8 ! ?n) = V8_METHOD_UNKNOWN" by simp
  show ?thesis
    by (simp add: v8_request_handler_routed [OF read loop] un handler_calls_append
        filter_calls_append sent_responses_append start_events_calls
        v8_response_set_status_def v8_response_create_def)
qed


lemma route_loop_stop:
  "route_loop w acts bs request response j = Inr (evs, response', i) \<Longrightarrow>
   (method' (acts ! i) = V8_METHOD_UNKNOWN \<and> evs = [] \<and> response' = response) \<or>
   action_matches bs request (acts ! i) = Inr True"
proof (induction w acts bs request response j rule: route_loop.induct)
  case (1 w acts bs request response j)
  show ?case
  proof (cases "length acts \<le> j")
    case True
    with "1.prems" show ?thesis
      by (subst (asm) route_loop.simps) simp
  next
    case inside: False
    show ?thesis
    proof (cases "method' (acts ! j) = V8_METHOD_UNKNOWN")
      case True
      with inside "1.prems" show ?thesis
        by (subst (asm) route_loop.simps) auto
    next
      case entry: False
      show ?thesis
      proof (cases "action_matches bs request (acts ! j)")
        case (Inl f)
        with inside entry "1.prems" show ?thesis
          by (subst (asm) route_loop.simps) simp
      next
        case (Inr b)
        show ?thesis
        proof (cases b)
          case True
          with Inr inside entry "1.prems" show ?thesis
            by (subst (asm) route_loop.simps) (auto split: prod.splits)
        next
          case False
          with Inr inside entry "1.prems"
          have "route_loop w acts bs request response (Suc j) = Inr (evs, response', i)"
            by (subst (asm) route_loop.simps) simp
          with "1.IH" [OF inside entry] Inr False show ?thesis
            by simp
        qed
      qed
    qed
  qed
qed

text \<open>
  Claim C10. For every table and every request, whatever the method: when the loop is
  left at an entry whose stored path is \<open>NULL\<close>, that entry is the sentinel and nothing
  was called. An entry with a \<open>NULL\<close> path is never the one the router selects.
\<close>

theorem null_route_never_selected:
  assumes "route (acts ! i) = None"
    and "route_loop w acts bs request response 0 = Inr (evs, response', i)"
  shows "method' (acts ! i) = V8_METHOD_UNKNOWN \<and> evs = [] \<and> response' = response"
proof -
  from assms(1) have "action_matches bs request (acts ! i) \<noteq> Inr True"
    by (simp add: action_matches_def)
  with route_loop_stop [OF assms(2)] show ?thesis
    by blast
qed

text \<open>
  Claim C9. The router compares \<open>route + base_size\<close> with the stored path and checks no
  length. For an entry with the method of the request and a stored path: when the path of
  the request has at least \<open>base_size\<close> characters, the comparison is the comparison of
  the path without its first \<open>base_size\<close> characters, and it succeeds exactly when that
  suffix is the stored path; when the path is shorter, \<open>strcmp\<close> reads beyond the
  buffer of the path, and the loop faults at the first such entry.
\<close>

theorem base_prefix_offset:
  assumes nul: "NUL \<notin> set (req_route request)"
    and r: "route a = Some r" "NUL \<notin> set r"
    and m: "method' a = req_method request"
  shows "(bs \<le> length (req_route request) \<longrightarrow>
            strcmp (drop bs (c_str (v8_request_route request))) (c_str r) =
              strcmp (c_str (drop bs (req_route request))) (c_str r) \<and>
            action_matches bs request a = Inr (drop bs (req_route request) = r)) \<and>
         (length (req_route request) < bs \<longrightarrow>
            action_matches bs request a = Inl String_overrun \<and>
            (method' a \<noteq> V8_METHOD_UNKNOWN \<longrightarrow>
               route_loop w (a # acts) bs request response 0 = Inl String_overrun))"
proof (intro conjI impI)
  assume "bs \<le> length (req_route request)"
  then show "strcmp (drop bs (c_str (v8_request_route request))) (c_str r) =
              strcmp (c_str (drop bs (req_route request))) (c_str r)"
    by (simp add: v8_request_route_def drop_c_str)
next
  assume len: "bs \<le> length (req_route request)"
  have "action_matches bs request a =
          Inr (entry_selects (req_method request) (drop bs (req_route request)) a)"
    using r by (intro action_matches_wf [OF nul len]) simp
  then show "action_matches bs request a = Inr (drop bs (req_route request) = r)"
    using r m by (simp add: entry_selects_def eq_commute)
next
  assume "length (req_route request) < bs"
  then show over: "action_matches bs request a = Inl String_overrun"
    using r m
    by (simp add: action_matches_def v8_request_method_def v8_request_route_def strcmp_overrun)
  assume "method' a \<noteq> V8_METHOD_UNKNOWN"
  with over show "route_loop w (a # acts) bs request response 0 = Inl String_overrun"
    by (subst route_loop.simps) simp
qed


lemma example_table_wf:
  "V8_METHOD_UNKNOWN \<in> set (map method' (actions example_v8))"
  "c_routes (actions example_v8)"
  "length (table_entries (actions example_v8)) = 4"
  by (simp_all add: example_v8_def example_table_def c_routes_def NUL_def table_entries_def)

theorem filter_short_circuit_witness:
  "scgi_request (example_world (Some admin_request)) = Some admin_request \<and>
   V8_METHOD_UNKNOWN \<in> set (map method' (actions example_v8)) \<and>
   c_routes (actions example_v8) \<and>
   NUL \<notin> set (req_route admin_request) \<and>
   base_size example_v8 \<le> length (req_route admin_request) \<and>
   2 < length (table_entries (actions example_v8)) \<and>
   entry_selects (req_method admin_request)
     (drop (base_size example_v8) (req_route admin_request)) (actions example_v8 ! 2) \<and>
   \<not> entry_selects (req_method admin_request)
     (drop (base_size example_v8) (req_route admin_request)) (actions example_v8 ! 0) \<and>
   \<not> entry_selects (req_method admin_request)
     (drop (base_size example_v8) (req_route admin_request)) (actions example_v8 ! 1) \<and>
   filter' (actions example_v8 ! 2) = Some 7 \<and>
   filters (example_world (Some admin_request)) 7 admin_request = Some 9 \<and>
   filter_calls (fst (snd (v8_request_handler (example_world (Some admin_request))
     example_v8 5))) = [7] \<and>
   handler_calls (fst (snd (v8_request_handler (example_world (Some admin_request))
     example_v8 5))) = [9] \<and>
   filters (example_world (Some signed_request)) 7 signed_request = None \<and>
   handler_calls (fst (snd (v8_request_handler (example_world (Some signed_request))
     example_v8 5))) = [2]"
proof -
  let ?w = "example_world (Some admin_request)"
  have h1: "scgi_request ?w = Some admin_request"
    by (simp add: example_world_def)
  have h4: "NUL \<notin> set (req_route admin_request)"
    by (simp add: admin_request_def NUL_def)
  have h5: "base_size example_v8 \<le> length (req_route admin_request)"
    by (simp add: admin_request_def example_v8_def)
  have h6: "2 < length (table_entries (actions example_v8))"
    by (simp add: example_table_wf)
  have h7: "entry_selects (req_method admin_request)
     (drop (base_size example_v8) (req_route admin_request)) (actions example_v8 ! 2)"
    by (simp add: entry_selects_def admin_request_def example_v8_def example_table_def)
  have n0: "\<not> entry_selects (req_method admin_request)
     (drop (base_size example_v8) (req_route admin_request)) (actions example_v8 ! 0)"
    by (simp add: entry_selects_def admin_request_def example_v8_def example_table_def)
  have n1: "\<not> entry_selects (req_method admin_request)
     (drop (base_size example_v8) (req_route admin_request)) (actions example_v8 ! 1)"
    by (simp add: entry_selects_def admin_request_def example_v8_def example_table_def)
  have h8: "\<forall>j<2. \<not> entry_selects (req_method admin_request)
     (drop (base_size example_v8) (req_route admin_request)) (actions example_v8 ! j)"
    using n0 n1 by (simp add: less_Suc_eq numeral_2_eq_2)
  have h9: "filter' (actions example_v8 ! 2) = Some 7"
    by (simp add: example_v8_def example_table_def)
  have fl: "filters ?w 7 admin_request = Some 9"
    by (simp add: example_world_def admin_request_def)
  from filter_short_circuit [OF h1 example_table_wf(1) example_table_wf(2) h4 h5 h6 h7 h8 h9,
      of 5]
  have "filter_calls (fst (snd (v8_request_handler ?w example_v8 5))) = [7] \<and>
        handler_calls (fst (snd (v8_request_handler ?w example_v8 5))) = [9]"
    by (simp add: fl split: prod.splits)
  note unauthorized = this
  let ?w' = "example_world (Some signed_request)"
  have g1: "scgi_request ?w' = Some signed_request"
    by (simp add: example_world_def)
  have same: "req_method signed_request = req_method admin_request"
    "req_route signed_request = req_route admin_request"
    by (simp_all add: signed_request_def admin_request_def)
  have fl': "filters ?w' 7 signed_request = None"
    by (simp add: example_world_def signed_request_def)
  have hd: "handler (actions example_v8 ! 2) = 2"
    by (simp add: example_v8_def example_table_def)
  from filter_short_circuit [of ?w' signed_request example_v8 2 7 5] g1
    example_table_wf(1) example_table_wf(2) h4 h5 h6 h7 h8 h9
  have "handler_calls (fst (snd (v8_request_handler ?w' example_v8 5))) = [2]"
    by (simp add: fl' same hd split: prod.splits)
  with unauthorized h1 example_table_wf(1) example_table_wf(2) h4 h5 h6 h7 n0 n1 h9 fl fl'
  show ?thesis
    by blast
qed

theorem no_match_not_found_witness:
  "scgi_request (example_world (Some missing_request)) = Some missing_request \<and>
   V8_METHOD_UNKNOWN \<in> set (map method' (actions example_v8)) \<and>
   c_routes (actions example_v8) \<and>
   NUL \<notin> set (req_route missing_request) \<and>
   base_size example_v8 \<le> length (req_route missing_request) \<and>
   list_all (\<lambda>a. \<not> entry_selects (req_method missing_request)
       (drop (base_size example_v8) (req_route missing_request)) a)
     (table_entries (actions example_v8)) \<and>
   handler_calls (fst (snd (v8_request_handler (example_world (Some missing_request))
     example_v8 5))) = [] \<and>
   sent_responses (fst (snd (v8_request_handler (example_world (Some missing_request))
     example_v8 5))) =
     [\<lparr>resp_sock = 5, resp_status = V8_STATUS_NOT_FOUND, resp_body = []\<rparr>]"
proof -
  let ?w = "example_world (Some missing_request)"
  have h1: "scgi_request ?w = Some missing_request"
    by (simp add: example_world_def)
  have h4: "NUL \<notin> set (req_route missing_request)"
    by (simp add: missing_request_def NUL_def)
  have h5: "base_size example_v8 \<le> length (req_route missing_request)"
    by (simp add: missing_request_def example_v8_def)
  have h6: "list_all (\<lambda>a. \<not> entry_selects (req_method missing_request)
       (drop (base_size example_v8) (req_route missing_request)) a)
     (table_entries (actions example_v8))"
    by (simp add: entry_selects_def missing_request_def example_v8_def example_table_def
        table_entries_def)
  then have h6': "\<forall>a \<in> set (table_entries (actions example_v8)).
       \<not> entry_selects (req_method missing_request)
          (drop (base_size example_v8) (req_route missing_request)) a"
    by (simp add: list_all_iff)
  from no_match_not_found [OF h1 example_table_wf(1) example_table_wf(2) h4 h5 h6', of 5]
  have "handler_calls (fst (snd (v8_request_handler ?w example_v8 5))) = [] \<and>
        sent_responses (fst (snd (v8_request_handler ?w example_v8 5))) =
          [\<lparr>resp_sock = 5, resp_status = V8_STATUS_NOT_FOUND, resp_body = []\<rparr>]"
    by (simp split: prod.splits)
  with h1 example_table_wf(1) example_table_wf(2) h4 h5 h6 show ?thesis
    by blast
qed

theorem null_route_never_selected_witness:
  "route (example_table ! 4) = None \<and>
   method' (example_table ! 1) = req_method missing_request \<and>
   route (example_table ! 1) = None \<and>
   route_loop (example_world None) example_table 4 missing_request
     (v8_response_create missing_request 5) 0
     = Inr ([], v8_response_create missing_request 5, 4) \<and>
   method' (example_table ! 4) = V8_METHOD_UNKNOWN"
proof -
  have h1: "route (example_table ! 4) = None"
    by (simp add: example_table_def)
  have e1: "method' (example_table ! 1) = req_method missing_request"
    "route (example_table ! 1) = None"
    by (simp_all add: example_table_def missing_request_def)
  have wf: "V8_METHOD_UNKNOWN \<in> set (map method' example_table)" "c_routes example_table"
    using example_table_wf by (simp_all add: example_v8_def)
  have p: "NUL \<notin> set (req_route missing_request)" "4 \<le> length (req_route missing_request)"
    by (simp_all add: missing_request_def NUL_def)
  have h2: "route_loop (example_world None) example_table 4 missing_request
     (v8_response_create missing_request 5) 0
     = Inr ([], v8_response_create missing_request 5, 4)"
    by (simp add: route_loop_wf [OF wf p])
      (simp add: entry_selects_def missing_request_def example_table_def table_entries_def)
  from null_route_never_selected [OF h1 h2]
  have "method' (example_table ! 4) = V8_METHOD_UNKNOWN"
    by blast
  with h1 e1 h2 show ?thesis
    by blast
qed

theorem base_prefix_offset_witness:
  "NUL \<notin> set (req_route ping_request) \<and> NUL \<notin> set (req_route short_request) \<and>
   route (example_table ! 0) = Some ''/ping'' \<and> NUL \<notin> set ''/ping'' \<and>
   method' (example_table ! 0) = req_method ping_request \<and>
   method' (example_table ! 0) = req_method short_request \<and>
   4 \<le> length (req_route ping_request) \<and>
   length (req_route short_request) < 4 \<and>
   action_matches 4 ping_request (example_table ! 0) = Inr True \<and>
   action_matches 4 short_request (example_table ! 0) = Inl String_overrun"
proof -
  have n1: "NUL \<notin> set (req_route ping_request)" and n2: "NUL \<notin> set (req_route short_request)"
    by (simp_all add: ping_request_def short_request_def NUL_def)
  have r: "route (example_table ! 0) = Some ''/ping''" "NUL \<notin> set ''/ping''"
    by (simp_all add: example_table_def NUL_def)
  have m1: "method' (example_table ! 0) = req_method ping_request"
    and m2: "method' (example_table ! 0) = req_method short_request"
    by (simp_all add: example_table_def ping_request_def short_request_def)
  have l1: "4 \<le> length (req_route ping_request)"
    and l2: "length (req_route short_request) < 4"
    by (simp_all add: ping_request_def short_request_def)
  from base_prefix_offset [OF n1 r m1, of 4] l1
  have a1: "action_matches 4 ping_request (example_table ! 0) = Inr True"
    by (simp add: ping_request_def)
  from base_prefix_offset [OF n2 r m2, of 4] l2
  have a2: "action_matches 4 short_request (example_table ! 0) = Inl String_overrun"
    by simp
  from n1 n2 r m1 m2 l1 l2 a1 a2 show ?thesis
    by blast
qed

section \<open>Properties of the worker\<close>

lemma run_action_events:
  "run_action w a request response = (evs, response') \<Longrightarrow>
   resp_sock response' = resp_sock response \<and>
   (\<forall>e \<in> set evs. event_fds e = [] \<and> \<not> uses_dispatcher e)"
  by (auto simp: run_action_def call_handler_def split: option.splits)

lemma route_loop_events:
  "route_loop w acts bs request response j = Inr (evs, response', i) \<Longrightarrow>
   resp_sock response' = resp_sock response \<and>
   (\<forall>e \<in> set evs. event_fds e = [] \<and> \<not> uses_dispatcher e)"
proof (induction w acts bs request response j rule: route_loop.induct)
  case (1 w acts bs request response j)
  show ?case
  proof (cases "length acts \<le> j")
    case True
    with "1.prems" show ?thesis
      by (subst (asm) route_loop.simps) simp
  next
    case inside: False
    show ?thesis
    proof (cases "method' (acts ! j) = V8_METHOD_UNKNOWN")
      case True
      with inside "1.prems" show ?thesis
        by (subst (asm) route_loop.simps) auto
    next
      case entry: False
      show ?thesis
      proof (cases "action_matches bs request (acts ! j)")
        case (Inl f)
        with inside entry "1.prems" show ?thesis
          by (subst (asm) route_loop.simps) simp
      next
        case (Inr b)
        show ?thesis
        proof (cases b)
          case True
          with Inr inside entry "1.prems"
          have "run_action w (acts ! j) request response = (evs, response')"
            by (subst (asm) route_loop.simps) (auto split: prod.splits)
          then show ?thesis
            by (rule run_action_events)
        next
          case False
          with Inr inside entry "1.prems"
          have "route_loop w acts bs request response (Suc j) = Inr (evs, response', i)"
            by (subst (asm) route_loop.simps) simp
          with "1.IH" [OF inside entry] Inr False show ?thesis
            by simp
        qed
      qed
    qed
  qed
qed

lemma v8_request_handler_shape:
  "\<exists>rest. fst (snd (v8_request_handler w v8 sock)) =
            [Request_create, Response_create sock, Scgi_request_read sock] @ rest \<and>
          (\<forall>e \<in> set rest. own_event sock e)"
proof (cases "scgi_request w")
  case None
  then show ?thesis
    by (simp add: v8_request_handler_def own_event_def)
next
  case (Some request)
  let ?v8' = "case app_init v8 of None \<Rightarrow> v8 | Some f \<Rightarrow> v8\<lparr>app_data := initializers w f\<rparr>"
  let ?resp = "v8_response_create request sock"
  have acts: "actions ?v8' = actions v8" "base_size ?v8' = base_size v8"
    by (simp_all split: option.splits)
  show ?thesis
  proof (cases "route_loop w (actions v8) (base_size v8) request ?resp 0")
    case (Inl f)
    with Some show ?thesis
      by (cases "app_init v8") (simp_all add: v8_request_handler_def own_event_def)
  next
    case (Inr res)
    then obtain evs response' i where
      loop: "route_loop w (actions v8) (base_size v8) request ?resp 0 = Inr (evs, response', i)"
      by (cases res) auto
    from route_loop_events [OF loop]
    have sock: "resp_sock response' = sock"
      and evs: "\<forall>e \<in> set evs. own_event sock e"
      by (simp_all add: v8_response_create_def own_event_def)
    show ?thesis
      using sock evs
      by (cases "app_init v8")
        (auto simp: v8_request_handler_routed [OF Some loop] start_events_def own_event_def
          v8_response_set_status_def)
  qed
qed


lemma v8_child_exec_ok:
  assumes "sigprocmask_ret w \<noteq> - 1"
  shows "v8_child_exec w v8 sock =
           (fst (v8_request_handler w (released v8) sock),
            teardown w v8 @ fst (snd (v8_request_handler w (released v8) sock)),
            (case snd (snd (v8_request_handler w (released v8) sock)) of
               Returns ret \<Rightarrow> Exits ret
             | out \<Rightarrow> out))"
  using assms
  by (simp add: v8_child_exec_def teardown_def released_def Let_def
      split: prod.splits outcome.splits)

lemma v8_child_exec_blocked:
  assumes "sigprocmask_ret w = - 1"
  shows "v8_child_exec w v8 sock =
           (released v8,
            teardown w v8 @ [Log Error ''Unable to unblock signals: %d'' []], Exits (- 1))"
  using assms by (simp add: v8_child_exec_def teardown_def released_def Let_def)

lemma v8_request_handler_state:
  "fst (v8_request_handler w v8 sock) = v8 \<or>
   (\<exists>d. fst (v8_request_handler w v8 sock) = v8\<lparr>app_data := d\<rparr>)"
  by (auto simp: v8_request_handler_def Let_def split: option.splits sum.splits prod.splits)

text \<open>
  Claim C7. In a worker (the connection socket is a descriptor of its own, different from
  the two the parent listens on), the protocol read begins exactly when the signals could
  be unblocked, and then everything before it is: the close of the signal descriptor, the
  close of the listening socket, the destruction of the dispatcher, the successful
  unblocking of the signals, and the creation of the request and response objects. From
  the read on, no event works on the two descriptors of the parent or on the dispatcher,
  and the server structure the worker keeps holds \<open>-1\<close>, \<open>-1\<close> and \<open>NULL\<close> for them.
\<close>

theorem worker_releases_parent_resources:
  assumes "sock \<noteq> sigfd v8" "sock \<noteq> sockfd v8"
  shows "case v8_child_exec w v8 sock of
           (v8', tr, out) \<Rightarrow>
             sigfd v8' = - 1 \<and> sockfd v8' = - 1 \<and> dispatcher v8' = None \<and>
             (Scgi_request_read sock \<in> set tr \<longleftrightarrow> sigprocmask_ret w \<noteq> - 1) \<and>
             (Scgi_request_read sock \<in> set tr \<longrightarrow>
                before_read sock tr =
                  [Close (sigfd v8), Close (sockfd v8), Dispatcher_destroy (dispatcher v8),
                   Sigprocmask_unblock (sigprocmask_ret w),
                   Request_create, Response_create sock]) \<and>
             (\<forall>e \<in> set (from_read sock tr). \<not> parent_resource v8 e)"
proof (cases "sigprocmask_ret w = - 1")
  case True
  then show ?thesis
    by (simp add: v8_child_exec_blocked released_def teardown_def from_read_def)
next
  case False
  let ?R = "v8_request_handler w (released v8) sock"
  from v8_request_handler_shape [of w "released v8" sock] obtain rest where
    tr: "fst (snd ?R) = [Request_create, Response_create sock, Scgi_request_read sock] @ rest"
    and rest: "\<forall>e \<in> set rest. own_event sock e"
    by blast
  have st: "sigfd (fst ?R) = - 1 \<and> sockfd (fst ?R) = - 1 \<and> dispatcher (fst ?R) = None"
    using v8_request_handler_state [of w "released v8" sock]
    by (auto simp: released_def)
  have own: "\<And>e. own_event sock e \<Longrightarrow> \<not> parent_resource v8 e"
    using assms by (auto simp: own_event_def parent_resource_def)
  have "\<not> parent_resource v8 (Scgi_request_read sock)"
    using assms by (simp add: parent_resource_def)
  with rest own have post: "\<forall>e \<in> set (Scgi_request_read sock # rest). \<not> parent_resource v8 e"
    by simp
  from False st post show ?thesis
    by (simp add: v8_child_exec_ok [OF False] tr teardown_def before_read_def from_read_def)
qed

theorem worker_releases_parent_resources_witness:
  "(5::int) \<noteq> sigfd example_v8 \<and> 5 \<noteq> sockfd example_v8 \<and>
   Scgi_request_read 5 \<in> set (fst (snd (v8_child_exec (example_world (Some ping_request))
     example_v8 5))) \<and>
   before_read 5 (fst (snd (v8_child_exec (example_world (Some ping_request)) example_v8 5)))
     = [Close 4, Close 3, Dispatcher_destroy (Some 1), Sigprocmask_unblock 0,
        Request_create, Response_create 5] \<and>
   list_all (\<lambda>e. \<not> parent_resource example_v8 e)
     (from_read 5 (fst (snd (v8_child_exec (example_world (Some ping_request)) example_v8 5))))"
proof -
  let ?w = "example_world (Some ping_request)"
  have h1: "(5::int) \<noteq> sigfd example_v8" and h2: "(5::int) \<noteq> sockfd example_v8"
    by (simp_all add: example_v8_def)
  have ok: "sigprocmask_ret ?w \<noteq> - 1"
    by (simp add: example_world_def)
  from worker_releases_parent_resources [OF h1 h2, of ?w] ok
  have "Scgi_request_read 5 \<in> set (fst (snd (v8_child_exec ?w example_v8 5))) \<and>
        before_read 5 (fst (snd (v8_child_exec ?w example_v8 5)))
          = [Close (sigfd example_v8), Close (sockfd example_v8),
             Dispatcher_destroy (dispatcher example_v8),
             Sigprocmask_unblock (sigprocmask_ret ?w), Request_create, Response_create 5] \<and>
        (\<forall>e \<in> set (from_read 5 (fst (snd (v8_child_exec ?w example_v8 5)))).
           \<not> parent_resource example_v8 e)"
    by (simp split: prod.splits)
  then show ?thesis
    using h1 h2 by (simp add: list_all_iff example_v8_def example_world_def)
qed


lemma v8_request_handler_outcome:
  assumes "scgi_request w = Some request"
  shows "(snd (snd (v8_request_handler w v8 sock)) = Returns 0 \<and>
            sent_responses (fst (snd (v8_request_handler w v8 sock))) \<noteq> []) \<or>
         (\<exists>f. snd (snd (v8_request_handler w v8 sock)) = Faults f \<and>
            sent_responses (fst (snd (v8_request_handler w v8 sock))) = [])"
proof (cases "route_loop w (actions v8) (base_size v8) request
                (v8_response_create request sock) 0")
  case (Inl f)
  with assms show ?thesis
    by (cases "app_init v8") (simp_all add: v8_request_handler_def)
next
  case (Inr res)
  then obtain evs response' i where
    loop: "route_loop w (actions v8) (base_size v8) request (v8_response_create request sock) 0
             = Inr (evs, response', i)"
    by (cases res) auto
  show ?thesis
    by (simp add: v8_request_handler_routed [OF assms loop] sent_responses_append)
qed

text \<open>
  Claim C8. A worker whose request read fails does the teardown, creates the request and
  response objects, attempts the read, logs the failure and closes the connection socket,
  and nothing else: no initializer, no filter, no handler, no response sent; it leaves
  with \<open>exit(-1)\<close>, which the parent sees as status 255. A worker whose request was read
  leaves with \<open>exit(0)\<close> after sending its response, unless the router faulted before.
\<close>

theorem read_failure_exit:
  assumes "sigprocmask_ret w \<noteq> - 1"
  shows "(scgi_request w = None \<longrightarrow>
            v8_child_exec w v8 sock =
              (v8\<lparr>sigfd := - 1, sockfd := - 1, dispatcher := None\<rparr>,
               [Close (sigfd v8), Close (sockfd v8), Dispatcher_destroy (dispatcher v8),
                Sigprocmask_unblock (sigprocmask_ret w),
                Request_create, Response_create sock, Scgi_request_read sock,
                Log Warn ''Could not read request'' [], Close sock],
               Exits (- 1)) \<and>
            exit_status (- 1) = 255) \<and>
         (scgi_request w \<noteq> None \<longrightarrow>
            (case v8_child_exec w v8 sock of
               (v8', tr, out) \<Rightarrow>
                 (out = Exits 0 \<and> sent_responses tr \<noteq> []) \<or>
                 (\<exists>f. out = Faults f \<and> sent_responses tr = [])))"
proof (intro conjI impI)
  assume "scgi_request w = None"
  then show "v8_child_exec w v8 sock =
              (v8\<lparr>sigfd := - 1, sockfd := - 1, dispatcher := None\<rparr>,
               [Close (sigfd v8), Close (sockfd v8), Dispatcher_destroy (dispatcher v8),
                Sigprocmask_unblock (sigprocmask_ret w),
                Request_create, Response_create sock, Scgi_request_read sock,
                Log Warn ''Could not read request'' [], Close sock],
               Exits (- 1))"
    by (simp add: v8_child_exec_ok [OF assms] v8_request_handler_def teardown_def released_def)
next
  show "exit_status (- 1) = 255"
    by (simp add: exit_status_def)
next
  assume "scgi_request w \<noteq> None"
  then obtain request where "scgi_request w = Some request"
    by auto
  from v8_request_handler_outcome [OF this, of "released v8" sock]
  show "case v8_child_exec w v8 sock of
               (v8', tr, out) \<Rightarrow>
                 (out = Exits 0 \<and> sent_responses tr \<noteq> []) \<or>
                 (\<exists>f. out = Faults f \<and> sent_responses tr = [])"
    by (auto simp: v8_child_exec_ok [OF assms] teardown_def sent_responses_append)
qed

theorem read_failure_exit_witness:
  "sigprocmask_ret (example_world None) \<noteq> - 1 \<and>
   scgi_request (example_world None) = None \<and>
   v8_child_exec (example_world None) example_v8 5 =
     (example_v8\<lparr>sigfd := - 1, sockfd := - 1, dispatcher := None\<rparr>,
      [Close 4, Close 3, Dispatcher_destroy (Some 1), Sigprocmask_unblock 0,
       Request_create, Response_create 5, Scgi_request_read 5,
       Log Warn ''Could not read request'' [], Close 5],
      Exits (- 1)) \<and>
   sigprocmask_ret (example_world (Some ping_request)) \<noteq> - 1 \<and>
   scgi_request (example_world (Some ping_request)) \<noteq> None \<and>
   snd (snd (v8_child_exec (example_world (Some ping_request)) example_v8 5)) = Exits 0"
proof -
  have a1: "sigprocmask_ret (example_world None) \<noteq> - 1"
    and a2: "scgi_request (example_world None) = None"
    and b1: "sigprocmask_ret (example_world (Some ping_request)) \<noteq> - 1"
    and b2: "scgi_request (example_world (Some ping_request)) \<noteq> None"
    by (simp_all add: example_world_def)
  from read_failure_exit [OF a1, of example_v8 5] a2
  have a3: "v8_child_exec (example_world None) example_v8 5 =
     (example_v8\<lparr>sigfd := - 1, sockfd := - 1, dispatcher := None\<rparr>,
      [Close 4, Close 3, Dispatcher_destroy (Some 1), Sigprocmask_unblock 0,
       Request_create, Response_create 5, Scgi_request_read 5,
       Log Warn ''Could not read request'' [], Close 5],
      Exits (- 1))"
    by (simp add: example_v8_def example_world_def)
  have wf: "NUL \<notin> set (req_route ping_request)"
    "base_size example_v8 \<le> length (req_route ping_request)"
    by (simp_all add: ping_request_def example_v8_def NUL_def)
  have nf: "\<And>f. snd (snd (v8_child_exec (example_world (Some ping_request)) example_v8 5))
               \<noteq> Faults f"
  proof -
    fix f
    have loop: "\<exists>evs r i. route_loop (example_world (Some ping_request))
          (actions (released example_v8)) (base_size (released example_v8)) ping_request
          (v8_response_create ping_request 5) 0 = Inr (evs, r, i)"
      using route_loop_wf [OF example_table_wf(1) example_table_wf(2) wf]
      by (simp add: released_def split: option.splits)
    then obtain evs r i where l: "route_loop (example_world (Some ping_request))
          (actions (released example_v8)) (base_size (released example_v8)) ping_request
          (v8_response_create ping_request 5) 0 = Inr (evs, r, i)"
      by blast
    have "scgi_request (example_world (Some ping_request)) = Some ping_request"
      by (simp add: example_world_def)
    from v8_request_handler_routed [OF this l]
    show "snd (snd (v8_child_exec (example_world (Some ping_request)) example_v8 5))
               \<noteq> Faults f"
      by (simp add: v8_child_exec_ok [OF b1])
  qed
  from read_failure_exit [OF b1, of example_v8 5] b2 nf
  have b3: "snd (snd (v8_child_exec (example_world (Some ping_request)) example_v8 5)) = Exits 0"
    by (auto split: prod.splits)
  from a1 a2 a3 b1 b2 b3 show ?thesis
    by blast
qed

section \<open>Properties of the connection acceptor\<close>

lemma accepted_socks_append: "accepted_socks (xs @ ys) = accepted_socks xs @ accepted_socks ys"
  by (induction xs rule: accepted_socks.induct) simp_all

lemma fork_results_append: "fork_results (xs @ ys) = fork_results xs @ fork_results ys"
  by (induction xs rule: fork_results.induct) simp_all

lemma closed_fds_append: "closed_fds (xs @ ys) = closed_fds xs @ closed_fds ys"
  by (induction xs rule: closed_fds.induct) simp_all

lemma logs_append: "logs (xs @ ys) = logs xs @ logs ys"
  by (induction xs rule: logs.induct) simp_all

lemma accept_returns_append: "accept_returns (xs @ ys) = accept_returns xs @ accept_returns ys"
  by (induction xs rule: accept_returns.induct) simp_all

lemma v8_fork_parent:
  assumes "pid \<noteq> 0"
  shows "\<exists>evs ret. v8_fork w pid v8 sock = (evs, Returns ret) \<and> (ret \<noteq> 0 \<longleftrightarrow> pid < 0) \<and>
           accepted_socks evs = [] \<and> fork_results evs = [pid] \<and> closed_fds evs = [sock]"
  using assms by (simp add: v8_fork_def)

lemma handed_over_map: "handed_over (map Accepted socks) = socks"
  by (induction socks) simp_all

lemma v8_handle_connection_parent:
  assumes parent: "\<forall>k. forks k \<noteq> 0"
  shows "case v8_handle_connection w forks v8 k pending of
           (tr, out, rest) \<Rightarrow>
             out = Returns 0 \<and>
             accepted_socks tr = map int (handed_over pending) \<and>
             fork_results tr = map forks [k ..< k + length (handed_over pending)] \<and>
             closed_fds tr = map int (handed_over pending) \<and>
             rest = drop (Suc (length (handed_over pending))) pending"
proof (induction pending arbitrary: k)
  case Nil
  show ?case by simp
next
  case (Cons a pending)
  show ?case
  proof (cases a)
    case (Accept_failed e)
    then show ?thesis by simp
  next
    case (Accepted n)
    from parent have "forks k \<noteq> 0" by simp
    from v8_fork_parent [OF this, of w v8 "int n"] obtain evs ret where
      fork: "v8_fork w (forks k) v8 (int n) = (evs, Returns ret)"
      and evs: "accepted_socks evs = []" "fork_results evs = [forks k]"
        "closed_fds evs = [int n]"
      by blast
    obtain tr out rest where
      run: "v8_handle_connection w forks v8 (Suc k) pending = (tr, out, rest)"
      by (cases "v8_handle_connection w forks v8 (Suc k) pending") auto
    with Cons.IH [of "Suc k"] have
      IH: "out = Returns 0" "accepted_socks tr = map int (handed_over pending)"
        "fork_results tr = map forks [Suc k ..< Suc k + length (handed_over pending)]"
        "closed_fds tr = map int (handed_over pending)"
        "rest = drop (Suc (length (handed_over pending))) pending"
      by simp_all
    let ?tr = "Accept (sockfd v8) (int n) # Log Debug ''Connection accepted'' [] # evs
                 @ (if ret \<noteq> 0 then [Log Error ''Fail to fork process'' []] else []) @ tr"
    have val: "v8_handle_connection w forks v8 k (a # pending) = (?tr, out, rest)"
      by (simp add: Accepted fork run)
    have ho: "handed_over (a # pending) = n # handed_over pending"
      by (simp add: Accepted)
    have upt: "[k ..< k + length (n # handed_over pending)] =
                 k # [Suc k ..< Suc k + length (handed_over pending)]"
      by (subst upt_rec) simp
    have a: "accepted_socks ?tr = map int (n # handed_over pending)"
      using IH(2) evs(1) by (simp add: accepted_socks_append)
    have f: "fork_results ?tr = map forks [k ..< k + length (n # handed_over pending)]"
      using IH(3) evs(2) by (simp only: upt) (simp add: fork_results_append)
    have c: "closed_fds ?tr = map int (n # handed_over pending)"
      using IH(4) evs(3) by (simp add: closed_fds_append)
    have r: "rest = drop (Suc (length (n # handed_over pending))) (a # pending)"
      using IH(5) by simp
    from IH(1) a f c r show ?thesis
      by (simp only: val ho prod.case)
  qed
qed

lemma v8_fork_parent_logs:
  assumes "pid \<noteq> 0"
  shows "\<exists>evs ret. v8_fork w pid v8 sock = (evs, Returns ret) \<and> (ret \<noteq> 0 \<longleftrightarrow> pid < 0) \<and>
           accepted_socks evs = [] \<and> fork_results evs = [pid] \<and> closed_fds evs = [sock] \<and>
           accept_returns evs = [] \<and>
           logs evs = (if pid < 0 then [(Error, ''Failed to create worker process %d'', [])]
                       else [])"
  using assms by (simp add: v8_fork_def)

lemma v8_handle_connection_logs:
  assumes parent: "\<forall>k. forks k \<noteq> 0"
  shows "case v8_handle_connection w forks v8 k pending of
           (tr, out, rest) \<Rightarrow>
             accept_returns tr = map int (handed_over pending) @ [- 1] \<and>
             logs tr =
               concat (map (\<lambda>i. cycle_logs (forks i))
                         [k ..< k + length (handed_over pending)])
               @ failure_logs (accept_failure pending)"
proof (induction pending arbitrary: k)
  case Nil
  show ?case by (simp add: failure_logs_def)
next
  case (Cons a pending)
  show ?case
  proof (cases a)
    case (Accept_failed e)
    then show ?thesis by (simp add: failure_logs_def)
  next
    case (Accepted n)
    from parent have "forks k \<noteq> 0" by simp
    from v8_fork_parent_logs [OF this, of w v8 "int n"] obtain evs ret where
      fork: "v8_fork w (forks k) v8 (int n) = (evs, Returns ret)"
      and ret: "ret \<noteq> 0 \<longleftrightarrow> forks k < 0"
      and evs: "accept_returns evs = []"
        "logs evs = (if forks k < 0 then [(Error, ''Failed to create worker process %d'', [])]
                     else [])"
      by blast
    obtain tr out rest where
      run: "v8_handle_connection w forks v8 (Suc k) pending = (tr, out, rest)"
      by (cases "v8_handle_connection w forks v8 (Suc k) pending") auto
    with Cons.IH [of "Suc k"] have
      IH: "accept_returns tr = map int (handed_over pending) @ [- 1]"
        "logs tr =
           concat (map (\<lambda>i. cycle_logs (forks i))
                     [Suc k ..< Suc k + length (handed_over pending)])
           @ failure_logs (accept_failure pending)"
      by simp_all
    let ?tr = "Accept (sockfd v8) (int n) # Log Debug ''Connection accepted'' [] # evs
                 @ (if ret \<noteq> 0 then [Log Error ''Fail to fork process'' []] else []) @ tr"
    have val: "v8_handle_connection w forks v8 k (a # pending) = (?tr, out, rest)"
      by (simp add: Accepted fork run)
    have ho: "handed_over (a # pending) = n # handed_over pending"
      "accept_failure (a # pending) = accept_failure pending"
      by (simp_all add: Accepted)
    have upt: "[k ..< k + length (n # handed_over pending)] =
                 k # [Suc k ..< Suc k + length (handed_over pending)]"
      by (subst upt_rec) simp
    have r: "accept_returns ?tr = map int (n # handed_over pending) @ [- 1]"
      using IH(1) evs(1) by (simp add: accept_returns_append)
    have l: "logs ?tr =
               concat (map (\<lambda>i. cycle_logs (forks i))
                         [k ..< k + length (n # handed_over pending)])
               @ failure_logs (accept_failure pending)"
      using IH(2) evs(2) ret
      by (simp only: upt) (simp add: logs_append cycle_logs_def)
    from r l show ?thesis
      by (simp only: val ho prod.case)
  qed
qed

text \<open>
  Claim C3, as amended. In the parent (no \<open>fork\<close> returns 0 there), one run of the
  acceptor makes one accept/fork cycle for each pending connection that \<open>accept\<close> hands
  over before \<open>accept\<close> fails for the first time, and no other: \<open>N\<close> cycles when \<open>N\<close>
  connections are handed over, then one last call of \<open>accept\<close>, which returns \<open>-1\<close>.
  The failure that ends the loop is "would block" once the backlog is drained, or any
  other failure of \<open>accept\<close> before that; it is logged as an error unless it is "would
  block". The sockets the parent closes are exactly the accepted ones, one close each,
  whatever \<open>fork\<close> returned, error included. Each cycle logs the accepted connection,
  and the two errors of a failed \<open>fork\<close> when \<open>fork\<close> failed; nothing else is logged.
\<close>

theorem acceptor_drains_backlog:
  assumes parent: "\<forall>k. forks k \<noteq> 0"
  shows "case v8_handle_connection w forks v8 k pending of
           (tr, out, rest) \<Rightarrow>
             out = Returns 0 \<and>
             accepted_socks tr = map int (handed_over pending) \<and>
             fork_results tr = map forks [k ..< k + length (handed_over pending)] \<and>
             closed_fds tr = map int (handed_over pending) \<and>
             rest = drop (Suc (length (handed_over pending))) pending \<and>
             (\<forall>socks. pending = map Accepted socks \<longrightarrow>
                length (accepted_socks tr) = length socks \<and>
                length (fork_results tr) = length socks \<and>
                closed_fds tr = map int socks \<and> rest = []) \<and>
             accept_returns tr = map int (handed_over pending) @ [- 1] \<and>
             logs tr =
               concat (map (\<lambda>i. cycle_logs (forks i))
                         [k ..< k + length (handed_over pending)])
               @ failure_logs (accept_failure pending)"
proof -
  obtain tr out rest where run: "v8_handle_connection w forks v8 k pending = (tr, out, rest)"
    by (cases "v8_handle_connection w forks v8 k pending") auto
  with v8_handle_connection_parent [OF parent, where w = w and ?v8.0 = v8 and k = k
      and pending = pending]
  have main: "out = Returns 0" "accepted_socks tr = map int (handed_over pending)"
    "fork_results tr = map forks [k ..< k + length (handed_over pending)]"
    "closed_fds tr = map int (handed_over pending)"
    "rest = drop (Suc (length (handed_over pending))) pending"
    by simp_all
  from run v8_handle_connection_logs [OF parent, where w = w and ?v8.0 = v8 and k = k
      and pending = pending]
  have lg: "accept_returns tr = map int (handed_over pending) @ [- 1]"
    "logs tr =
       concat (map (\<lambda>i. cycle_logs (forks i)) [k ..< k + length (handed_over pending)])
       @ failure_logs (accept_failure pending)"
    by simp_all
  have "\<forall>socks. pending = map Accepted socks \<longrightarrow>
          length (accepted_socks tr) = length socks \<and>
          length (fork_results tr) = length socks \<and>
          closed_fds tr = map int socks \<and> rest = []"
    using main by (auto simp: handed_over_map)
  with main lg show ?thesis
    by (simp only: run prod.case)
qed

theorem acceptor_drains_backlog_witness:
  "example_forks 0 \<noteq> 0 \<and> example_forks 1 \<noteq> 0 \<and> example_forks 2 \<noteq> 0 \<and>
   (case v8_handle_connection (example_world None) example_forks
           example_v8 0 [Accepted 7, Accepted 8, Accept_failed 24, Accepted 9] of
      (tr, out, rest) \<Rightarrow>
        out = Returns 0 \<and> accepted_socks tr = [7, 8] \<and> fork_results tr = [100, - 1] \<and>
        closed_fds tr = [7, 8] \<and> rest = [Accepted 9] \<and>
        accept_returns tr = [7, 8, - 1] \<and>
        logs tr =
          [(Debug, ''Connection accepted'', []),
           (Debug, ''Connection accepted'', []),
           (Error, ''Failed to create worker process %d'', []),
           (Error, ''Fail to fork process'', []),
           (Error, ''Fail to accept connection'', [])])"
proof -
  have h: "\<forall>k. example_forks k \<noteq> 0"
    by (simp add: example_forks_def)
  have u: "[0 ..< 2] = [0, 1::nat]"
    by (simp add: upt_rec)
  from acceptor_drains_backlog [OF h, where w = "example_world None" and ?v8.0 = example_v8
      and k = 0 and pending = "[Accepted 7, Accepted 8, Accept_failed 24, Accepted 9]"]
  show ?thesis
    by (simp add: u example_forks_def cycle_logs_def failure_logs_def EAGAIN_def
        split: prod.splits)
qed

text \<open>
  Claim C3, as stated, fails when \<open>accept\<close> fails with an error other than "would
  block" while connections are pending (here error 103, a connection aborted by its
  peer, ahead of two pending connections): the error is logged and the loop is left,
  since its condition is \<open>newsock != -1\<close>; no cycle is run for the two connections.
\<close>

theorem acceptor_stops_at_accept_error:
  "v8_handle_connection (example_world None) example_forks example_v8 0
     [Accept_failed 103, Accepted 7, Accepted 8] =
   ([Accept 3 (- 1), Log Error ''Fail to accept connection'' []], Returns 0,
    [Accepted 7, Accepted 8])"
  by (simp add: example_v8_def EAGAIN_def)

section \<open>Properties of the signal handler\<close>

lemma reaped_pids_append: "reaped_pids (xs @ ys) = reaped_pids xs @ reaped_pids ys"
  by (induction xs rule: reaped_pids.induct) simp_all

lemma reap_children_pid:
  "case reap_children pt status of
     (evs, pid, status', pt') \<Rightarrow> pid = 0 \<and> logs evs = [] \<and> running pt' = running pt"
proof (induction "zombies pt" arbitrary: pt status)
  case Nil
  then show ?case
    by (subst reap_children.simps) (simp add: waitpid_nohang_def)
next
  case (Cons z zs)
  obtain p s where z: "z = (p, s)"
    by (cases z) auto
  with Cons.hyps(2) [symmetric]
  have w: "waitpid_nohang pt = (p, Some s, pt\<lparr>zombies := zs\<rparr>)"
    by (simp add: waitpid_nohang_def)
  show ?case
  proof (cases "0 < p")
    case True
    from Cons.hyps(1) [of "pt\<lparr>zombies := zs\<rparr>" "Some s"]
    have "case reap_children (pt\<lparr>zombies := zs\<rparr>) (Some s) of
            (evs, pid, status', pt') \<Rightarrow> pid = 0 \<and> logs evs = [] \<and> running pt' = running pt"
      by simp
    with True w show ?thesis
      by (subst reap_children.simps) (auto split: prod.splits)
  next
    case False
    with w show ?thesis
      by (subst reap_children.simps) simp
  qed
qed

lemma reap_children_all:
  assumes "\<forall>z \<in> set (zombies pt). 0 < fst z"
  shows "case reap_children pt status of
           (evs, pid, status', pt') \<Rightarrow>
             zombies pt' = [] \<and> reaped_pids evs = map fst (zombies pt)"
  using assms
proof (induction "zombies pt" arbitrary: pt status)
  case Nil
  then show ?case
    by (subst reap_children.simps) (simp add: waitpid_nohang_def)
next
  case (Cons z zs)
  obtain p s where z: "z = (p, s)"
    by (cases z) auto
  with Cons.hyps(2) [symmetric]
  have w: "waitpid_nohang pt = (p, Some s, pt\<lparr>zombies := zs\<rparr>)"
    by (simp add: waitpid_nohang_def)
  from Cons.prems Cons.hyps(2) z have p: "0 < p" and zs: "\<forall>z \<in> set zs. 0 < fst z"
    by (metis fst_conv list.set_intros(1), metis list.set_intros(2))
  from Cons.hyps(1) [of "pt\<lparr>zombies := zs\<rparr>" "Some s"] zs
  have "case reap_children (pt\<lparr>zombies := zs\<rparr>) (Some s) of
          (evs, pid, status', pt') \<Rightarrow> zombies pt' = [] \<and> reaped_pids evs = map fst zs"
    by simp
  with p w Cons.hyps(2) [symmetric] z show ?case
    by (subst reap_children.simps) (auto split: prod.splits)
qed

lemma handle_sigchld_reaps:
  assumes "\<forall>z \<in> set (zombies pt). 0 < fst z"
  shows "case handle_sigchld pt of
           (tr, pt') \<Rightarrow>
             zombies pt' = [] \<and> running pt' = running pt \<and>
             reaped_pids tr = map fst (zombies pt)"
  using reap_children_all [OF assms, of None] reap_children_pid [of pt None]
  by (auto simp: handle_sigchld_def reaped_pids_append split: prod.splits)

lemma handle_sigchld_logs:
  "logs (fst (handle_sigchld pt)) =
     [(Debug, ''Child signaled'', []), (Debug, ''Child has not changed state'', [])]"
  using reap_children_pid [of pt None]
  by (auto simp: handle_sigchld_def logs_append split: prod.splits)

text \<open>
  Claim C2 does not hold of the code. In \<open>pid = waitpid(...) > 0\<close> the variable \<open>pid\<close>
  receives a truth value, so it is 0 when the loop is left, whatever was reaped: for every
  process table the \<open>SIGCHLD\<close> case logs "Child signaled" and "Child has not changed
  state" and nothing else, and the four branches that report an exit code, a fatal signal,
  a stop or a continuation are never reached. With one child (4242) that exited with
  code 0, the child is reaped and no entry names it.
\<close>

theorem sigchld_logs_no_outcome:
  "logs (fst (handle_sigchld pt)) =
     [(Debug, ''Child signaled'', []), (Debug, ''Child has not changed state'', [])] \<and>
   handle_sigchld \<lparr>zombies = [(4242, W_exited 0)], running = []\<rparr> =
     ([Log Debug ''Child signaled'' [], Waitpid 4242, Waitpid (- 1),
       Log Debug ''Child has not changed state'' []],
      \<lparr>zombies = [], running = []\<rparr>)"
proof
  show "logs (fst (handle_sigchld pt)) =
     [(Debug, ''Child signaled'', []), (Debug, ''Child has not changed state'', [])]"
    by (rule handle_sigchld_logs)
next
  have 1: "reap_children \<lparr>zombies = [], running = []\<rparr> (Some (W_exited 0)) =
             ([Waitpid (- 1)], 0, Some (W_exited 0), \<lparr>zombies = [], running = []\<rparr>)"
    by (subst reap_children.simps) (simp add: waitpid_nohang_def)
  have 2: "reap_children \<lparr>zombies = [(4242, W_exited 0)], running = []\<rparr> None =
             ([Waitpid 4242, Waitpid (- 1)], 0, Some (W_exited 0),
              \<lparr>zombies = [], running = []\<rparr>)"
    by (subst reap_children.simps) (simp add: waitpid_nohang_def 1)
  show "handle_sigchld \<lparr>zombies = [(4242, W_exited 0)], running = []\<rparr> =
     ([Log Debug ''Child signaled'' [], Waitpid 4242, Waitpid (- 1),
       Log Debug ''Child has not changed state'' []],
      \<lparr>zombies = [], running = []\<rparr>)"
    by (simp add: handle_sigchld_def 2)
qed

lemma signal_numbers:
  "SIGCHLD \<noteq> SIGINT" "SIGCHLD \<noteq> SIGQUIT" "SIGCHLD \<noteq> SIGTERM" "SIGCHLD \<noteq> SIGHUP"
  by (simp_all add: SIGCHLD_def SIGINT_def SIGQUIT_def SIGTERM_def SIGHUP_def)

lemma v8_handle_signal_reaps:
  assumes "\<forall>z \<in> set (zombies pt). 0 < fst z"
  shows "case v8_handle_signal v8 (map Siginfo sigs) pt of
           (tr, pt') \<Rightarrow>
             running pt' = running pt \<and>
             (if SIGCHLD \<in> set sigs
              then zombies pt' = [] \<and> reaped_pids tr = map fst (zombies pt)
              else zombies pt' = zombies pt \<and> reaped_pids tr = [])"
  using assms
proof (induction sigs arbitrary: pt)
  case Nil
  show ?case by simp
next
  case (Cons signo sigs)
  show ?case
  proof (cases "signo = SIGCHLD")
    case True
    obtain tr1 pt1 where h: "handle_sigchld pt = (tr1, pt1)"
      by (cases "handle_sigchld pt") auto
    with handle_sigchld_reaps [OF Cons.prems]
    have 1: "zombies pt1 = []" "running pt1 = running pt"
      "reaped_pids tr1 = map fst (zombies pt)"
      by simp_all
    obtain tr2 pt2 where r: "v8_handle_signal v8 (map Siginfo sigs) pt1 = (tr2, pt2)"
      by (cases "v8_handle_signal v8 (map Siginfo sigs) pt1") auto
    with Cons.IH [of pt1] 1
    have 2: "running pt2 = running pt" "zombies pt2 = []" "reaped_pids tr2 = []"
      by (simp_all split: if_splits)
    from True 1 2 show ?thesis
      by (simp add: h r signal_numbers reaped_pids_append)
  next
    case False
    obtain tr2 pt2 where r: "v8_handle_signal v8 (map Siginfo sigs) pt = (tr2, pt2)"
      by (cases "v8_handle_signal v8 (map Siginfo sigs) pt") auto
    with Cons.IH [OF Cons.prems]
    have 2: "running pt2 = running pt"
      "if SIGCHLD \<in> set sigs
       then zombies pt2 = [] \<and> reaped_pids tr2 = map fst (zombies pt)
       else zombies pt2 = zombies pt \<and> reaped_pids tr2 = []"
      by simp_all
    from False 2 show ?thesis
      by (simp add: r reaped_pids_append)
  qed
qed

text \<open>
  Claim C1. Whatever the number of children that have ended (their process ids are
  positive), one run of the \<open>SIGCHLD\<close> case leaves none of them unwaited: \<open>waitpid\<close>
  reported each of them once, in turn, and the running children are untouched. The same
  holds for one run of the signal handler on any queue of signal records that holds a
  \<open>SIGCHLD\<close> record.
\<close>

theorem sigchld_reaps_all:
  assumes "\<forall>z \<in> set (zombies pt). 0 < fst z"
  shows "(case handle_sigchld pt of
            (tr, pt') \<Rightarrow>
              zombies pt' = [] \<and> running pt' = running pt \<and>
              reaped_pids tr = map fst (zombies pt)) \<and>
         (SIGCHLD \<in> set sigs \<longrightarrow>
            (case v8_handle_signal v8 (map Siginfo sigs) pt of
               (tr, pt') \<Rightarrow>
                 zombies pt' = [] \<and> running pt' = running pt \<and>
                 reaped_pids tr = map fst (zombies pt)))"
  using handle_sigchld_reaps [OF assms] v8_handle_signal_reaps [OF assms, where ?v8.0 = v8 and sigs = sigs]
  by (auto split: prod.splits)


theorem sigchld_reaps_all_witness:
  "list_all (\<lambda>z. 0 < fst z) (zombies example_procs) \<and>
   SIGCHLD \<in> set [SIGHUP, SIGCHLD] \<and>
   zombies (snd (v8_handle_signal example_v8 (map Siginfo [SIGHUP, SIGCHLD]) example_procs)) = [] \<and>
   running (snd (v8_handle_signal example_v8 (map Siginfo [SIGHUP, SIGCHLD]) example_procs))
     = [104] \<and>
   reaped_pids (fst (v8_handle_signal example_v8 (map Siginfo [SIGHUP, SIGCHLD]) example_procs))
     = [101, 102, 103]"
proof -
  have h: "list_all (\<lambda>z. 0 < fst z) (zombies example_procs)"
    by (simp add: example_procs_def)
  then have h': "\<forall>z \<in> set (zombies example_procs). 0 < fst z"
    by (simp add: list_all_iff)
  have s: "SIGCHLD \<in> set [SIGHUP, SIGCHLD]"
    by simp
  let ?run = "v8_handle_signal example_v8 (map Siginfo [SIGHUP, SIGCHLD]) example_procs"
  note sigchld_reaps_all [OF h', where sigs = "[SIGHUP, SIGCHLD]" and ?v8.0 = example_v8,
      THEN conjunct2, THEN mp, OF s]
  then have r: "zombies (snd ?run) = [] \<and> running (snd ?run) = running example_procs \<and>
        reaped_pids (fst ?run) = map fst (zombies example_procs)"
    by (simp only: case_prod_beta)
  have e: "running example_procs = [104]" "map fst (zombies example_procs) = [101, 102, 103]"
    by (simp_all add: example_procs_def)
  from h s r show ?thesis
    by (simp only: e)
qed

end
